theory Spec2Isabelle
  imports Complex_Main "HOL-Library.Log_Nat" "HOL-Library.Word"
begin

section \<open>JavaScript numbers in the progress computation\<close>

text \<open>
  The progress callback of \<^verbatim>\<open>flash\<close> (flash.ts, lines 184 to 201) computes
  \<^verbatim>\<open>Math.floor(((totalWritten + bytesWritten) / totalSize) * 100)\<close> on JavaScript
  Numbers, which are IEEE 754 binary64 values. Byte counts are modelled as naturals
  (binary64 represents every integer below \<open>2 ^ 53\<close> exactly, so sums of byte counts
  below that bound are exact). The quotient and the product are each rounded to the
  nearest binary64 value, ties to even. A quotient of two positive naturals below
  \<open>2 ^ 53\<close> lies between \<open>2 ^ -53\<close> and \<open>2 ^ 53\<close>, and its product with 100 below
  \<open>2 ^ 60\<close>: the exponent range of binary64 is never left, so the model rounds the
  significand to 53 bits and leaves the exponent unbounded. Division by zero gives
  \<^verbatim>\<open>NaN\<close> (for 0 / 0) or \<^verbatim>\<open>Infinity\<close>, as in JavaScript.
\<close>

datatype double = Double (significand: int) (exponent: int)
  \<comment> \<open>the non-negative finite binary64 value \<open>significand * 2 ^ exponent\<close>\<close>

datatype js_number = Finite int | Infinity | NaN
  \<comment> \<open>the Numbers a percentage can be: an integer (the result of \<^verbatim>\<open>Math.floor\<close>),
      \<^verbatim>\<open>Infinity\<close> or \<^verbatim>\<open>NaN\<close>\<close>

definition round_nearest_even :: "int \<Rightarrow> int \<Rightarrow> int" where
  \<comment> \<open>the integer nearest to \<open>n / d\<close> (\<open>d\<close> positive), a tie going to the even neighbour\<close>
  "round_nearest_even n d =
     (let f = n div d; r = n mod d
      in if 2 * r < d then f
         else if d < 2 * r then f + 1
         else if even f then f else f + 1)"

definition binade :: "int \<Rightarrow> int \<Rightarrow> int" where
  \<comment> \<open>the \<open>l\<close> with \<open>2 ^ l \<le> p / q < 2 ^ (l + 1)\<close>, for positive \<open>p\<close> and \<open>q\<close>\<close>
  "binade p q =
     (let k = bitlen p - bitlen q
      in if (if 0 \<le> k then 2 ^ nat k * q \<le> p else q \<le> 2 ^ nat (- k) * p) then k
         else k - 1)"

definition round_to_double :: "int \<Rightarrow> int \<Rightarrow> double" where
  \<comment> \<open>the binary64 value nearest to \<open>p / q\<close> (\<open>p\<close> not negative, \<open>q\<close> positive):
      a significand of 53 bits\<close>
  "round_to_double p q =
     (if p = 0 then Double 0 0
      else let e = binade p q - 52
           in if 0 \<le> e then Double (round_nearest_even p (2 ^ nat e * q)) e
              else Double (round_nearest_even (2 ^ nat (- e) * p) q) e)"

definition double_mul :: "double \<Rightarrow> int \<Rightarrow> double" where
  \<comment> \<open>\<^verbatim>\<open>x * k\<close> for a positive integer constant \<open>k\<close>, rounded\<close>
  "double_mul x k =
     (if 0 \<le> exponent x then round_to_double (significand x * k * 2 ^ nat (exponent x)) 1
      else round_to_double (significand x * k) (2 ^ nat (- exponent x)))"

definition double_floor :: "double \<Rightarrow> int" where
  \<comment> \<open>\<^verbatim>\<open>Math.floor\<close> of a finite value\<close>
  "double_floor x =
     (if 0 \<le> exponent x then significand x * 2 ^ nat (exponent x)
      else significand x div 2 ^ nat (- exponent x))"

definition percentage_of :: "nat \<Rightarrow> nat \<Rightarrow> js_number" where
  \<comment> \<open>\<^verbatim>\<open>Math.floor((written / totalSize) * 100)\<close>, lines 185 to 187\<close>
  "percentage_of written totalSize =
     (if totalSize = 0 then (if written = 0 then NaN else Infinity)
      else Finite (double_floor (double_mul (round_to_double (int written) (int totalSize)) 100)))"

definition strict_eq :: "js_number \<Rightarrow> js_number \<Rightarrow> bool" where
  \<comment> \<open>\<^verbatim>\<open>===\<close> on Numbers: \<^verbatim>\<open>NaN\<close> equals nothing, itself included\<close>
  "strict_eq x y = (x \<noteq> NaN \<and> y \<noteq> NaN \<and> x = y)"

section \<open>The manifest and the emitted states (const.ts)\<close>

record part =
  path :: string
  offset :: int

record build =
  chipFamily :: string
  improv :: bool
  parts :: "part list"

text \<open>
  The manifest is parsed from JSON at run time, so a build's \<^verbatim>\<open>chipFamily\<close> is whatever
  string the document holds; the declared type names \<^verbatim>\<open>"ESP32"\<close> and \<^verbatim>\<open>"ESP8266"\<close>.
\<close>

record manifest =
  name :: string
  builds :: "build list"

type_synonym array_buffer = "8 word list"

datatype js_error =
  Thrown string
    \<comment> \<open>an error thrown or rejected by a collaborator, by its message\<close>
| DownloadError string nat
    \<comment> \<open>the Error of lines 116 to 118, whose message holds \<^verbatim>\<open>part.path\<close> and
        \<^verbatim>\<open>resp.status\<close>\<close>

datatype flash_error =
  FAILED_INITIALIZING
| FAILED_MANIFEST_FETCH
| NOT_SUPPORTED
| FAILED_FIRMWARE_DOWNLOAD
| WRITE_FAILED

text \<open>
  The messages are Vietnamese text, some with interpolated values. Each constructor
  stands for the message literal of one source line and carries what it interpolates.
\<close>

datatype message =
  MsgInitializing                 \<comment> \<open>line 43\<close>
| MsgInitializeFailed             \<comment> \<open>line 55\<close>
| MsgInitialized string           \<comment> \<open>line 67, with \<^verbatim>\<open>chipFamily\<close>\<close>
| MsgFindingFirmware              \<comment> \<open>line 72\<close>
| MsgManifestFailed js_error      \<comment> \<open>line 81, with \<^verbatim>\<open>err.message\<close>\<close>
| MsgManifestFound string         \<comment> \<open>line 92, with \<^verbatim>\<open>manifest.name\<close>\<close>
| MsgNotSupported string          \<comment> \<open>line 99, with \<^verbatim>\<open>chipFamily\<close>\<close>
| MsgPreparing                    \<comment> \<open>line 108\<close>
| MsgPrepared                     \<comment> \<open>line 147\<close>
| MsgErasing                      \<comment> \<open>line 154\<close>
| MsgErased                       \<comment> \<open>line 160\<close>
| MsgWriteStart js_number         \<comment> \<open>line 169, with \<^verbatim>\<open>lastPct\<close>\<close>
| MsgWriteProgress js_number      \<comment> \<open>line 194, with \<^verbatim>\<open>newPct\<close>\<close>
| MsgWriteDone                    \<comment> \<open>line 219\<close>
| MsgFinished                     \<comment> \<open>line 233\<close>
| MsgError js_error               \<comment> \<open>lines 137 and 208: the caught error itself\<close>

datatype error_details =
  DetailsError js_error
| DetailsString string

text \<open>
  \<^verbatim>\<open>FlashState\<close>: one constructor for each interface of the union, with its message
  and its \<^verbatim>\<open>details\<close>. A writing state holds \<^verbatim>\<open>bytesTotal\<close>, \<^verbatim>\<open>bytesWritten\<close> and
  \<^verbatim>\<open>percentage\<close>; an error state the \<^verbatim>\<open>FlashError\<close> and the cause.
\<close>

datatype flash_state =
  InitializingState message bool
| ManifestState message bool
| PreparingState message bool
| ErasingState message bool
| WritingState message nat nat js_number
| FinishedState message
| ErrorState message flash_error error_details

text \<open>
  The detail of a \<^verbatim>\<open>state-changed\<close> event: the state update, and the variables
  \<^verbatim>\<open>manifest\<close>, \<^verbatim>\<open>build\<close> and \<^verbatim>\<open>chipFamily\<close> of the run as they are when the event
  is fired (lines 15 to 22); \<open>None\<close> is \<^verbatim>\<open>undefined\<close>.
\<close>

record state_changed =
  stateUpdate :: flash_state
  ev_manifest :: "manifest option"
  ev_build :: "build option"
  ev_chipFamily :: "string option"

section \<open>The collaborators\<close>

record response =
  ok :: bool
  status :: nat
  arrayBuffer :: "js_error + array_buffer"

text \<open>
  What the device, the network and the page do in one run. A call that can throw or
  reject has a result with \<open>Some err\<close> or \<open>Inl err\<close> for the error. A call of
  \<^verbatim>\<open>flashData\<close> (the \<open>i\<close>-th of the run, for a file and an offset) invokes the
  progress callback with each of the listed \<^verbatim>\<open>bytesWritten\<close> values and then resolves
  or rejects. \<^verbatim>\<open>getChipFamilyName\<close> is imported from util.ts, which is not among the
  sources: its result is a field.
\<close>

record env =
  location :: string
  resolveURL :: "string \<Rightarrow> string \<Rightarrow> js_error + string"
  fetchManifest :: "string \<Rightarrow> js_error + manifest"
  fetchPart :: "string \<Rightarrow> js_error + response"
  connect :: "js_error option"
  esp_initialize :: "js_error option"
  esp_connected :: bool
  getChipFamilyName :: string
  esp_runStub :: "js_error option"
  esp_eraseFlash :: "js_error option"
  esp_flashData :: "nat \<Rightarrow> array_buffer \<Rightarrow> int \<Rightarrow> nat list \<times> js_error option"
  esp_hardReset :: "js_error option"
  esp_disconnect :: "js_error option"

datatype device_call =
  Initialize | RunStub | EraseFlash | FlashData array_buffer int | HardReset | Disconnect

datatype event =
  StateChanged state_changed
| LoggerError js_error
| Device device_call

datatype outcome = Resolved | Rejected js_error
  \<comment> \<open>how the promise returned by \<^verbatim>\<open>flash\<close> settles\<close>

type_synonym run = "event list \<times> outcome"

datatype 'a step = Continue 'a | Stop outcome
  \<comment> \<open>after a loop: go on with a value, or the function has returned or thrown\<close>

section \<open>The run (flash.ts)\<close>

text \<open>
  A run is the list of what \<^verbatim>\<open>flash\<close> does that an observer can see, in order (the
  events it fires, the calls it makes on the device, what it logs), and how its promise
  settles. The assignment of line 39 (a debugging aid) and the settle delay of line 227
  have no part in either.
\<close>

definition fireStateEvent ::
  "manifest option \<Rightarrow> build option \<Rightarrow> string option \<Rightarrow> flash_state \<Rightarrow> event" where
  \<comment> \<open>lines 15 to 22, with the variables of lines 11 to 13 as arguments\<close>
  "fireStateEvent man bld chip upd =
     StateChanged \<lparr>stateUpdate = upd, ev_manifest = man, ev_build = bld, ev_chipFamily = chip\<rparr>"

definition then_run :: "event list \<Rightarrow> run \<Rightarrow> run" where
  "then_run evs r = (evs @ fst r, snd r)"

definition disconnect_and_return :: "env \<Rightarrow> run" where
  \<comment> \<open>\<^verbatim>\<open>await esploader.disconnect(); return;\<close> A rejection is not caught.\<close>
  "disconnect_and_return env =
     ([Device Disconnect],
      case esp_disconnect env of None \<Rightarrow> Resolved | Some err \<Rightarrow> Rejected err)"

definition download :: "env \<Rightarrow> string \<Rightarrow> part \<Rightarrow> js_error + array_buffer" where
  \<comment> \<open>the promise of one part, lines 112 to 121\<close>
  "download env manifestURL p =
     (case resolveURL env (path p) manifestURL of
        Inl err \<Rightarrow> Inl err
      | Inr url \<Rightarrow>
          (case fetchPart env url of
             Inl err \<Rightarrow> Inl err
           | Inr resp \<Rightarrow>
               if \<not> ok resp then Inl (DownloadError (path p) (status resp))
               else arrayBuffer resp))"

fun await_files ::
  "(js_error + array_buffer) list \<Rightarrow> array_buffer list \<Rightarrow> nat \<Rightarrow>
   js_error + array_buffer list \<times> nat" where
  \<comment> \<open>the loop of lines 129 to 143, up to the first promise that rejects\<close>
  "await_files [] files totalSize = Inr (files, totalSize)"
| "await_files (prom # proms) files totalSize =
     (case prom of
        Inl err \<Rightarrow> Inl err
      | Inr data \<Rightarrow> await_files proms (files @ [data]) (totalSize + length data))"

definition onProgress ::
  "(flash_state \<Rightarrow> event) \<Rightarrow> nat \<Rightarrow> nat \<Rightarrow> js_number \<Rightarrow> nat \<Rightarrow> event list \<times> js_number" where
  \<comment> \<open>one call of the callback of lines 184 to 201: the event it fires, if any, and
      \<^verbatim>\<open>lastPct\<close> after it\<close>
  "onProgress fire totalSize totalWritten lastPct bytesWritten =
     (let newPct = percentage_of (totalWritten + bytesWritten) totalSize
      in if strict_eq newPct lastPct then ([], lastPct)
         else ([fire (WritingState (MsgWriteProgress newPct) totalSize
                        (totalWritten + bytesWritten) newPct)], newPct))"

fun callbacks ::
  "(flash_state \<Rightarrow> event) \<Rightarrow> nat \<Rightarrow> nat \<Rightarrow> js_number \<Rightarrow> nat list \<Rightarrow> event list \<times> js_number" where
  \<comment> \<open>the calls of the callback during one \<^verbatim>\<open>flashData\<close>\<close>
  "callbacks fire totalSize totalWritten lastPct [] = ([], lastPct)"
| "callbacks fire totalSize totalWritten lastPct (bytesWritten # rest) =
     (let (evs, pct) = onProgress fire totalSize totalWritten lastPct bytesWritten;
          (evs', pct') = callbacks fire totalSize totalWritten pct rest
      in (evs @ evs', pct'))"

fun write_parts ::
  "env \<Rightarrow> (flash_state \<Rightarrow> event) \<Rightarrow> nat \<Rightarrow> nat \<Rightarrow> part list \<Rightarrow> array_buffer list \<Rightarrow>
   nat \<Rightarrow> js_number \<Rightarrow> event list \<times> nat step" where
  \<comment> \<open>the loop of lines 179 to 215; \<open>i\<close> counts the calls of \<^verbatim>\<open>flashData\<close>. The queue
      \<^verbatim>\<open>files\<close> holds one buffer for each part, so \<^verbatim>\<open>files.shift()\<close> never finds it
      empty; the model lets the run throw there.\<close>
  "write_parts env fire totalSize i [] files totalWritten lastPct = ([], Continue totalWritten)"
| "write_parts env fire totalSize i (p # rest) files totalWritten lastPct =
     (case files of
        [] \<Rightarrow> ([], Stop (Rejected (Thrown ''TypeError'')))
      | file # files' \<Rightarrow>
          (let (calls, result) = esp_flashData env i file (offset p);
               (progress, lastPct') = callbacks fire totalSize totalWritten lastPct calls
           in case result of
                Some err \<Rightarrow>
                  (Device (FlashData file (offset p)) # progress @
                   fire (ErrorState (MsgError err) WRITE_FAILED (DetailsError err)) #
                   fst (disconnect_and_return env),
                   Stop (snd (disconnect_and_return env)))
              | None \<Rightarrow>
                  (let (evs, r) = write_parts env fire totalSize (Suc i) rest files'
                                    (totalWritten + length file) lastPct'
                   in (Device (FlashData file (offset p)) # progress @ evs, r))))"

definition finishing :: "env \<Rightarrow> (flash_state \<Rightarrow> event) \<Rightarrow> run" where
  \<comment> \<open>lines 227 to 234; neither \<^verbatim>\<open>hardReset\<close> nor \<^verbatim>\<open>disconnect\<close> is guarded\<close>
  "finishing env fire =
     then_run [Device HardReset]
       (case esp_hardReset env of
          Some err \<Rightarrow> ([], Rejected err)
        | None \<Rightarrow>
            then_run [Device Disconnect]
              (case esp_disconnect env of
                 Some err \<Rightarrow> ([], Rejected err)
               | None \<Rightarrow> ([fire (FinishedState MsgFinished)], Resolved)))"

definition writing :: "env \<Rightarrow> (flash_state \<Rightarrow> event) \<Rightarrow> build \<Rightarrow> array_buffer list \<Rightarrow> nat \<Rightarrow> run" where
  \<comment> \<open>lines 165 to 225\<close>
  "writing env fire bld files totalSize =
     then_run [fire (WritingState (MsgWriteStart (Finite 0)) totalSize 0 (Finite 0))]
       (case write_parts env fire totalSize 0 (parts bld) files 0 (Finite 0) of
          (evs, Stop out) \<Rightarrow> (evs, out)
        | (evs, Continue totalWritten) \<Rightarrow>
            then_run (evs @ [fire (WritingState MsgWriteDone totalSize totalWritten (Finite 100))])
              (finishing env fire))"

definition erasing ::
  "env \<Rightarrow> bool \<Rightarrow> (flash_state \<Rightarrow> event) \<Rightarrow> build \<Rightarrow> array_buffer list \<Rightarrow> nat \<Rightarrow> run" where
  \<comment> \<open>lines 151 to 163; \<^verbatim>\<open>eraseFlash\<close> is not guarded\<close>
  "erasing env eraseFirst fire bld files totalSize =
     (if eraseFirst then
        then_run [fire (ErasingState MsgErasing False), Device EraseFlash]
          (case esp_eraseFlash env of
             Some err \<Rightarrow> ([], Rejected err)
           | None \<Rightarrow>
               then_run [fire (ErasingState MsgErased True)]
                 (writing env fire bld files totalSize))
      else writing env fire bld files totalSize)"

definition preparing :: "env \<Rightarrow> string \<Rightarrow> bool \<Rightarrow> (flash_state \<Rightarrow> event) \<Rightarrow> build \<Rightarrow> run" where
  \<comment> \<open>lines 106 to 149. The downloads start before \<^verbatim>\<open>runStub\<close> is awaited, and
      \<^verbatim>\<open>runStub\<close> is not guarded: when it rejects, so does the run.\<close>
  "preparing env manifestURL eraseFirst fire bld =
     then_run [fire (PreparingState MsgPreparing False), Device RunStub]
       (let filePromises = map (download env manifestURL) (parts bld)
        in case esp_runStub env of
             Some err \<Rightarrow> ([], Rejected err)
           | None \<Rightarrow>
               (case await_files filePromises [] 0 of
                  Inl err \<Rightarrow>
                    then_run [fire (ErrorState (MsgError err) FAILED_FIRMWARE_DOWNLOAD
                                      (DetailsError err))]
                      (disconnect_and_return env)
                | Inr (files, totalSize) \<Rightarrow>
                    then_run [fire (PreparingState MsgPrepared True)]
                      (erasing env eraseFirst fire bld files totalSize)))"

definition select_build :: "manifest \<Rightarrow> string \<Rightarrow> build option" where
  \<comment> \<open>line 88: \<^verbatim>\<open>manifest.builds.find((b) => b.chipFamily === chipFamily)\<close>\<close>
  "select_build man chip = find (\<lambda>b. chipFamily b = chip) (builds man)"

definition resolving :: "env \<Rightarrow> string \<Rightarrow> bool \<Rightarrow> string \<Rightarrow> run" where
  \<comment> \<open>lines 65 to 104, \<^verbatim>\<open>chipFamily\<close> being assigned\<close>
  "resolving env manifestURL eraseFirst chip =
     then_run
       [fireStateEvent None None (Some chip) (InitializingState (MsgInitialized chip) True),
        fireStateEvent None None (Some chip) (ManifestState MsgFindingFirmware False)]
       (case fetchManifest env manifestURL of
          Inl err \<Rightarrow>
            then_run
              [fireStateEvent None None (Some chip)
                 (ErrorState (MsgManifestFailed err) FAILED_MANIFEST_FETCH (DetailsError err))]
              (disconnect_and_return env)
        | Inr man \<Rightarrow>
            (let bld = select_build man chip
             in then_run
                  [fireStateEvent (Some man) bld (Some chip)
                     (ManifestState (MsgManifestFound (name man)) True)]
                  (case bld of
                     None \<Rightarrow>
                       then_run
                         [fireStateEvent (Some man) None (Some chip)
                            (ErrorState (MsgNotSupported chip) NOT_SUPPORTED (DetailsString chip))]
                         (disconnect_and_return env)
                   | Some b \<Rightarrow>
                       preparing env manifestURL eraseFirst
                         (fireStateEvent (Some man) (Some b) (Some chip)) b)))"

definition initializing :: "env \<Rightarrow> string \<Rightarrow> bool \<Rightarrow> run" where
  \<comment> \<open>lines 41 to 63\<close>
  "initializing env manifestURL eraseFirst =
     then_run
       [fireStateEvent None None None (InitializingState MsgInitializing False),
        Device Initialize]
       (case esp_initialize env of
          Some err \<Rightarrow>
            then_run [LoggerError err]
              (if esp_connected env then
                 then_run
                   [fireStateEvent None None None
                      (ErrorState MsgInitializeFailed FAILED_INITIALIZING (DetailsError err))]
                   (disconnect_and_return env)
               else ([], Resolved))
        | None \<Rightarrow> resolving env manifestURL eraseFirst (getChipFamilyName env))"

definition flash :: "env \<Rightarrow> string \<Rightarrow> bool \<Rightarrow> run" where
  \<comment> \<open>lines 5 to 36: the manifest's URL, the fetch of the manifest started, the
      connection. \<^verbatim>\<open>new URL\<close> throws on a path it cannot resolve.\<close>
  "flash env manifestPath eraseFirst =
     (case resolveURL env manifestPath (location env) of
        Inl err \<Rightarrow> ([], Rejected err)
      | Inr manifestURL \<Rightarrow>
          (case connect env of
             Some err \<Rightarrow> ([], Resolved)
           | None \<Rightarrow> initializing env manifestURL eraseFirst))"

section \<open>What an observer of the events sees\<close>

fun emitted :: "event list \<Rightarrow> state_changed list" where
  "emitted [] = []"
| "emitted (StateChanged d # evs) = d # emitted evs"
| "emitted (LoggerError err # evs) = emitted evs"
| "emitted (Device c # evs) = emitted evs"

definition states :: "run \<Rightarrow> flash_state list" where
  \<comment> \<open>the state updates of a run, in the order they were fired\<close>
  "states r = map stateUpdate (emitted (fst r))"

datatype shape =
  Initializing bool
| Manifest bool
| Preparing bool
| Erasing bool
| Writing js_number
| Finished
| Error flash_error

fun shape_of :: "flash_state \<Rightarrow> shape" where
  \<comment> \<open>a state without its message: the phase with \<^verbatim>\<open>done\<close>, \<^verbatim>\<open>percentage\<close> or the
      \<^verbatim>\<open>FlashError\<close>\<close>
  "shape_of (InitializingState msg d) = Initializing d"
| "shape_of (ManifestState msg d) = Manifest d"
| "shape_of (PreparingState msg d) = Preparing d"
| "shape_of (ErasingState msg d) = Erasing d"
| "shape_of (WritingState msg bytesTotal bytesWritten pct) = Writing pct"
| "shape_of (FinishedState msg) = Finished"
| "shape_of (ErrorState msg e cause) = Error e"

definition shapes :: "run \<Rightarrow> shape list" where
  "shapes r = map shape_of (states r)"

definition seen :: "event list \<Rightarrow> shape list" where
  "seen evs = map shape_of (map stateUpdate (emitted evs))"

section \<open>A test environment\<close>

text \<open>
  The manifest of the specification's scenario: one build for \<^verbatim>\<open>ESP32\<close> with one part.
  In the test environment every collaborator succeeds, a relative path is resolved
  against the directory of the base URL, the part has 1000 bytes, and
  the device calls the progress callback twice, after 290 and after 1000 bytes.
\<close>

definition test_manifest :: manifest where
  "test_manifest =
     \<lparr>name = ''Test'',
      builds = [\<lparr>chipFamily = ''ESP32'', improv = False,
                 parts = [\<lparr>path = ''a.bin'', offset = 0\<rparr>]\<rparr>]\<rparr>"

definition test_env :: env where
  "test_env =
     \<lparr>location = ''http://host/'',
      resolveURL = (\<lambda>p base. Inr (rev (dropWhile (\<lambda>c. c \<noteq> CHR ''/'') (rev base)) @ p)),
      fetchManifest = (\<lambda>url. Inr test_manifest),
      fetchPart = (\<lambda>url. Inr \<lparr>ok = True, status = 200, arrayBuffer = Inr (replicate 1000 0)\<rparr>),
      connect = None,
      esp_initialize = None,
      esp_connected = True,
      getChipFamilyName = ''ESP32'',
      esp_runStub = None,
      esp_eraseFlash = None,
      esp_flashData = (\<lambda>i file off. ([290, 1000], None)),
      esp_hardReset = None,
      esp_disconnect = None\<rparr>"

text \<open>
  The test environment with a device that calls the progress callback after 500 and
  after 1000 bytes.
\<close>

definition half_env :: env where
  "half_env = test_env \<lparr>esp_flashData := (\<lambda>i file off. ([500, 1000], None))\<rparr>"

text \<open>
  A manifest whose build has two parts, and an environment in which no part can be
  downloaded: the fetch of \<^verbatim>\<open>b.bin\<close> returns the status 500, any other the status 404.
\<close>

definition two_part_manifest :: manifest where
  "two_part_manifest =
     \<lparr>name = ''Test'',
      builds = [\<lparr>chipFamily = ''ESP32'', improv = False,
                 parts = [\<lparr>path = ''a.bin'', offset = 0\<rparr>,
                          \<lparr>path = ''b.bin'', offset = 4096\<rparr>]\<rparr>]\<rparr>"

definition not_found_env :: env where
  "not_found_env =
     test_env
       \<lparr>fetchManifest := (\<lambda>url. Inr two_part_manifest),
        fetchPart := (\<lambda>url. Inr \<lparr>ok = False,
                                 status = (if url = ''http://host/b.bin'' then 500 else 404),
                                 arrayBuffer = Inr []\<rparr>)\<rparr>"

section \<open>Predicates on events and shapes\<close>

text \<open>
  What the write loop fires and calls while it goes on: progress states, with the run's
  context, and calls of \<^verbatim>\<open>flashData\<close>.
\<close>

fun progress_state :: "flash_state \<Rightarrow> bool" where
  "progress_state (WritingState (MsgWriteProgress p) bytesTotal bytesWritten pct) = True"
| "progress_state s = False"

definition carries :: "manifest option \<Rightarrow> build option \<Rightarrow> string option \<Rightarrow> state_changed \<Rightarrow> bool" where
  "carries man bld chip d = (ev_manifest d = man \<and> ev_build d = bld \<and> ev_chipFamily d = chip)"

fun loop_event :: "manifest option \<Rightarrow> build option \<Rightarrow> string option \<Rightarrow> event \<Rightarrow> bool" where
  "loop_event man bld chip (StateChanged d) = (progress_state (stateUpdate d) \<and> carries man bld chip d)"
| "loop_event man bld chip (Device (FlashData file off)) = True"
| "loop_event man bld chip e = False"

text \<open>The states after which a run fires nothing more.\<close>

fun terminal :: "shape \<Rightarrow> bool" where
  "terminal Finished = True"
| "terminal (Error e) = True"
| "terminal s = False"

definition orderly :: "shape list \<Rightarrow> bool" where
  "orderly l = (\<forall>s\<in>set (butlast l). \<not> terminal s)"

text \<open>
  The context of a state: a field that is set on an earlier state has the same value on
  a later one.
\<close>

definition context_kept :: "state_changed \<Rightarrow> state_changed \<Rightarrow> bool" where
  "context_kept d1 d2 =
     ((ev_manifest d1 \<noteq> None \<longrightarrow> ev_manifest d2 = ev_manifest d1) \<and>
      (ev_build d1 \<noteq> None \<longrightarrow> ev_build d2 = ev_build d1) \<and>
      (ev_chipFamily d1 \<noteq> None \<longrightarrow> ev_chipFamily d2 = ev_chipFamily d1))"

text \<open>
  The values of the variables \<^verbatim>\<open>manifest\<close>, \<^verbatim>\<open>build\<close> and \<^verbatim>\<open>chipFamily\<close> at the time a
  state of a given shape is fired: \<^verbatim>\<open>chipFamily\<close> is assigned on line 63, after the first
  state and after the error of a failed initialization; \<^verbatim>\<open>manifest\<close> on line 77 and
  \<^verbatim>\<open>build\<close> on line 88, after the states of lines 65 to 74 and after the error of a
  failed fetch of the manifest.
\<close>

definition context_at ::
  "env \<Rightarrow> string \<Rightarrow> shape \<Rightarrow> manifest option \<times> build option \<times> string option" where
  "context_at env manifestURL s =
     (let chip = getChipFamilyName env;
          man = (case fetchManifest env manifestURL of Inl err \<Rightarrow> None | Inr m \<Rightarrow> Some m);
          bld = (case man of None \<Rightarrow> None | Some m \<Rightarrow> select_build m chip)
      in if s = Initializing False \<or> s = Error FAILED_INITIALIZING then (None, None, None)
         else if s = Initializing True \<or> s = Manifest False \<or> s = Error FAILED_MANIFEST_FETCH
           then (None, None, Some chip)
         else (man, bld, Some chip))"

text \<open>The shapes of the states fired from line 106 on, and their context.\<close>

fun late_shape :: "shape \<Rightarrow> bool" where
  "late_shape (Preparing d) = True"
| "late_shape (Erasing d) = True"
| "late_shape (Writing pct) = True"
| "late_shape Finished = True"
| "late_shape (Error FAILED_FIRMWARE_DOWNLOAD) = True"
| "late_shape (Error WRITE_FAILED) = True"
| "late_shape s = False"

definition late :: "manifest option \<Rightarrow> build option \<Rightarrow> string option \<Rightarrow> state_changed \<Rightarrow> bool" where
  "late man bld chip d = (carries man bld chip d \<and> late_shape (shape_of (stateUpdate d)))"

text \<open>
  A run ends in an error when it fires exactly one error state, as its last state, and
  the last thing it does is to call \<^verbatim>\<open>disconnect\<close>.
\<close>

fun is_error :: "shape \<Rightarrow> bool" where
  "is_error (Error e) = True"
| "is_error s = False"

definition ends_in_error :: "run \<Rightarrow> flash_error \<Rightarrow> bool" where
  "ends_in_error r e =
     (length (filter is_error (shapes r)) = 1 \<and> last (shapes r) = Error e \<and>
      last (fst r) = Device Disconnect)"

text \<open>
  The writing state of lines 217 to 225, fired when all parts are written, and a
  progress state of the callback with a given percentage.
\<close>

fun final_writing :: "flash_state \<Rightarrow> bool" where
  "final_writing (WritingState MsgWriteDone bytesTotal bytesWritten pct) = True"
| "final_writing s = False"

definition progress_to :: "js_number \<Rightarrow> flash_state \<Rightarrow> bool" where
  "progress_to pct s = (progress_state s \<and> shape_of s = Writing pct)"

text \<open>
  The writing states of a run: the state of lines 165 to 175, the progress states of the
  callback, and the state of lines 217 to 225.
\<close>

fun writing_state :: "flash_state \<Rightarrow> bool" where
  "writing_state (WritingState msg bytesTotal bytesWritten pct) = True"
| "writing_state s = False"

section \<open>The value of a binary64 number\<close>

text \<open>
  For the proofs about rounding: the real number a \<open>double\<close> stands for, the fraction
  \<open>p / q\<close> scaled by \<open>2 ^ - e\<close> as \<open>round_to_double\<close> rounds it, and the exact product
  of a \<open>double\<close> and an integer as a fraction.
\<close>

definition dval :: "double \<Rightarrow> real" where
  "dval x = of_int (significand x) * 2 powi exponent x"

definition scaled :: "int \<Rightarrow> int \<Rightarrow> int \<Rightarrow> int \<times> int" where
  "scaled p q e = (if 0 \<le> e then (p, 2 ^ nat e * q) else (2 ^ nat (- e) * p, q))"

definition mul_fraction :: "double \<Rightarrow> int \<Rightarrow> int \<times> int" where
  "mul_fraction x k =
     (if 0 \<le> exponent x then (significand x * k * 2 ^ nat (exponent x), 1)
      else (significand x * k, 2 ^ nat (- exponent x)))"

section \<open>The progress of the write loop\<close>

text \<open>
  The values \<^verbatim>\<open>totalWritten + bytesWritten\<close> that the progress callback receives over
  the write loop (lines 179 to 215), in order: the bytes written so far, over all parts.
  The loop ends with the first call of \<^verbatim>\<open>flashData\<close> that fails.
\<close>

fun cumulative :: "env \<Rightarrow> nat \<Rightarrow> part list \<Rightarrow> array_buffer list \<Rightarrow> nat \<Rightarrow> nat list" where
  "cumulative env i [] files totalWritten = []"
| "cumulative env i (p # rest) [] totalWritten = []"
| "cumulative env i (p # rest) (file # files') totalWritten =
     map (\<lambda>bytesWritten. totalWritten + bytesWritten) (fst (esp_flashData env i file (offset p))) @
     (case snd (esp_flashData env i file (offset p)) of
        Some err \<Rightarrow> []
      | None \<Rightarrow> cumulative env (Suc i) rest files' (totalWritten + length file))"

text \<open>
  The progress tracker in the specification's words: a value of bytes written is
  dropped when its percentage equals the last emitted percentage, and is emitted, its
  percentage becoming the last emitted one, otherwise. The result lists the values at
  which a state is emitted.
\<close>

fun progress_spec :: "nat \<Rightarrow> js_number \<Rightarrow> nat list \<Rightarrow> nat list" where
  "progress_spec bytesTotal lastPct [] = []"
| "progress_spec bytesTotal lastPct (bytesWritten # rest) =
     (if percentage_of bytesWritten bytesTotal = lastPct then progress_spec bytesTotal lastPct rest
      else bytesWritten # progress_spec bytesTotal (percentage_of bytesWritten bytesTotal) rest)"

text \<open>The progress state of lines 192 to 200 for a value of bytes written.\<close>

definition progress_update :: "nat \<Rightarrow> nat \<Rightarrow> flash_state" where
  "progress_update bytesTotal bytesWritten =
     WritingState (MsgWriteProgress (percentage_of bytesWritten bytesTotal)) bytesTotal bytesWritten
       (percentage_of bytesWritten bytesTotal)"

text \<open>\<^verbatim>\<open>lastPct\<close> after the callback has received the values \<open>ws\<close>.\<close>

definition final_pct :: "nat \<Rightarrow> js_number \<Rightarrow> nat list \<Rightarrow> js_number" where
  "final_pct bytesTotal lastPct ws = (if ws = [] then lastPct else percentage_of (last ws) bytesTotal)"

section \<open>Basic facts\<close>

lemma emitted_append [simp]: "emitted (xs @ ys) = emitted xs @ emitted ys"
  by (induction xs rule: emitted.induct) simp_all

lemma emitted_fire [simp]:
  "emitted (fireStateEvent man bld chip upd # evs) =
   \<lparr>stateUpdate = upd, ev_manifest = man, ev_build = bld, ev_chipFamily = chip\<rparr> # emitted evs"
  by (simp add: fireStateEvent_def)

lemma fst_then_run [simp]: "fst (then_run evs r) = evs @ fst r"
  by (simp add: then_run_def)

lemma snd_then_run [simp]: "snd (then_run evs r) = snd r"
  by (simp add: then_run_def)

lemma states_then_run: "states (then_run evs r) = map stateUpdate (emitted evs) @ states r"
  by (simp add: states_def)

lemma shapes_then_run: "shapes (then_run evs r) = map shape_of (map stateUpdate (emitted evs)) @ shapes r"
  by (simp add: shapes_def states_then_run)

lemma fst_disconnect [simp]: "fst (disconnect_and_return env) = [Device Disconnect]"
  by (simp add: disconnect_and_return_def)

lemma states_disconnect [simp]: "states (disconnect_and_return env) = []"
  by (simp add: states_def)

lemma shapes_disconnect [simp]: "shapes (disconnect_and_return env) = []"
  by (simp add: shapes_def)

lemma find_first:
  "find P xs = Some x \<longleftrightarrow> (\<exists>pre post. xs = pre @ x # post \<and> P x \<and> (\<forall>y\<in>set pre. \<not> P y))"
proof (induction xs)
  case Nil
  then show ?case by simp
next
  case (Cons a xs)
  show ?case
  proof (cases "P a")
    case True
    have "(\<exists>pre post. a # xs = pre @ x # post \<and> P x \<and> (\<forall>y\<in>set pre. \<not> P y)) \<longleftrightarrow> a = x"
    proof
      assume "\<exists>pre post. a # xs = pre @ x # post \<and> P x \<and> (\<forall>y\<in>set pre. \<not> P y)"
      then obtain pre post where h: "a # xs = pre @ x # post" "\<forall>y\<in>set pre. \<not> P y" by blast
      show "a = x"
      proof (cases pre)
        case Nil
        with h show ?thesis by simp
      next
        case (Cons b pre')
        with h True show ?thesis by auto
      qed
    next
      assume "a = x"
      with True have "a # xs = [] @ x # xs \<and> P x \<and> (\<forall>y\<in>set []. \<not> P y)" by simp
      then show "\<exists>pre post. a # xs = pre @ x # post \<and> P x \<and> (\<forall>y\<in>set pre. \<not> P y)" by blast
    qed
    with True show ?thesis by auto
  next
    case False
    have "(\<exists>pre post. a # xs = pre @ x # post \<and> P x \<and> (\<forall>y\<in>set pre. \<not> P y)) \<longleftrightarrow>
          (\<exists>pre post. xs = pre @ x # post \<and> P x \<and> (\<forall>y\<in>set pre. \<not> P y))"
    proof
      assume "\<exists>pre post. a # xs = pre @ x # post \<and> P x \<and> (\<forall>y\<in>set pre. \<not> P y)"
      then obtain pre post where h: "a # xs = pre @ x # post" "P x" "\<forall>y\<in>set pre. \<not> P y" by blast
      show "\<exists>pre post. xs = pre @ x # post \<and> P x \<and> (\<forall>y\<in>set pre. \<not> P y)"
      proof (cases pre)
        case Nil
        with h False show ?thesis by simp
      next
        case (Cons b pre')
        with h have "xs = pre' @ x # post \<and> P x \<and> (\<forall>y\<in>set pre'. \<not> P y)" by simp
        then show ?thesis by blast
      qed
    next
      assume "\<exists>pre post. xs = pre @ x # post \<and> P x \<and> (\<forall>y\<in>set pre. \<not> P y)"
      then obtain pre post where h: "xs = pre @ x # post" "P x" "\<forall>y\<in>set pre. \<not> P y" by blast
      with False have "a # xs = (a # pre) @ x # post \<and> P x \<and> (\<forall>y\<in>set (a # pre). \<not> P y)" by simp
      then show "\<exists>pre post. a # xs = pre @ x # post \<and> P x \<and> (\<forall>y\<in>set pre. \<not> P y)" by blast
    qed
    with False Cons.IH show ?thesis by simp
  qed
qed

lemma select_build_None: "select_build man chip = None \<longleftrightarrow> (\<forall>b\<in>set (builds man). chipFamily b \<noteq> chip)"
  by (auto simp: select_build_def find_None_iff)

lemma no_build_run:
  assumes "resolveURL env manifestPath (location env) = Inr manifestURL"
    and "connect env = None" and "esp_initialize env = None"
    and "fetchManifest env manifestURL = Inr man"
    and "select_build man (getChipFamilyName env) = None"
  shows "flash env manifestPath eraseFirst =
    ([fireStateEvent None None None (InitializingState MsgInitializing False),
      Device Initialize,
      fireStateEvent None None (Some (getChipFamilyName env))
        (InitializingState (MsgInitialized (getChipFamilyName env)) True),
      fireStateEvent None None (Some (getChipFamilyName env)) (ManifestState MsgFindingFirmware False),
      fireStateEvent (Some man) None (Some (getChipFamilyName env))
        (ManifestState (MsgManifestFound (name man)) True),
      fireStateEvent (Some man) None (Some (getChipFamilyName env))
        (ErrorState (MsgNotSupported (getChipFamilyName env)) NOT_SUPPORTED
           (DetailsString (getChipFamilyName env))),
      Device Disconnect],
     case esp_disconnect env of None \<Rightarrow> Resolved | Some err \<Rightarrow> Rejected err)"
  using assms
  by (simp add: flash_def initializing_def resolving_def then_run_def disconnect_and_return_def)

section \<open>A cancelled connection\<close>

text \<open>
  C7. When the connection step fails or the user cancels it, the run ends at once and in
  silence: it fires no state (no error state either), calls nothing on the device, and
  its promise resolves.
\<close>

theorem cancelled_connect_is_silent:
  "connect env = Some err \<Longrightarrow>
     fst (flash env manifestPath eraseFirst) = [] \<and>
     states (flash env manifestPath eraseFirst) = [] \<and>
     (\<forall>manifestURL. resolveURL env manifestPath (location env) = Inr manifestURL \<longrightarrow>
        snd (flash env manifestPath eraseFirst) = Resolved)"
  by (simp add: flash_def states_def split: sum.splits)

theorem cancelled_connect_is_silent_witness:
  "connect (test_env\<lparr>connect := Some (Thrown ''NotFoundError'')\<rparr>) = Some (Thrown ''NotFoundError'') \<and>
   flash (test_env\<lparr>connect := Some (Thrown ''NotFoundError'')\<rparr>) ''manifest.json'' False = ([], Resolved)"
  using cancelled_connect_is_silent
    [of "test_env\<lparr>connect := Some (Thrown ''NotFoundError'')\<rparr>" "Thrown ''NotFoundError''"
        "''manifest.json''" False]
  by (simp add: test_env_def prod_eq_iff)

section \<open>Build selection\<close>

text \<open>
  C5. Build selection returns the first build of the manifest whose \<^verbatim>\<open>chipFamily\<close> equals
  the detected chip family, and \<open>None\<close> (\<^verbatim>\<open>undefined\<close>, not an exception) when no build
  matches. In that case the run, the chip being detected and the manifest fetched, ends
  with the error state \<^verbatim>\<open>NOT_SUPPORTED\<close> whose details are the detected chip family, and
  disconnects.
\<close>

theorem build_selection:
  "(select_build man chip = Some b \<longleftrightarrow>
      (\<exists>pre post. builds man = pre @ b # post \<and> chipFamily b = chip \<and>
         (\<forall>x\<in>set pre. chipFamily x \<noteq> chip))) \<and>
   (select_build man chip = None \<longleftrightarrow> (\<forall>x\<in>set (builds man). chipFamily x \<noteq> chip)) \<and>
   (resolveURL env manifestPath (location env) = Inr manifestURL \<and> connect env = None \<and>
    esp_initialize env = None \<and> fetchManifest env manifestURL = Inr man \<and>
    select_build man (getChipFamilyName env) = None \<longrightarrow>
      states (flash env manifestPath eraseFirst) =
        [InitializingState MsgInitializing False,
         InitializingState (MsgInitialized (getChipFamilyName env)) True,
         ManifestState MsgFindingFirmware False,
         ManifestState (MsgManifestFound (name man)) True,
         ErrorState (MsgNotSupported (getChipFamilyName env)) NOT_SUPPORTED
           (DetailsString (getChipFamilyName env))] \<and>
      last (fst (flash env manifestPath eraseFirst)) = Device Disconnect)"
proof (intro conjI impI)
  show "select_build man chip = Some b \<longleftrightarrow>
      (\<exists>pre post. builds man = pre @ b # post \<and> chipFamily b = chip \<and>
         (\<forall>x\<in>set pre. chipFamily x \<noteq> chip))"
    unfolding select_build_def by (rule find_first)
  show "select_build man chip = None \<longleftrightarrow> (\<forall>x\<in>set (builds man). chipFamily x \<noteq> chip)"
    by (rule select_build_None)
next
  assume h: "resolveURL env manifestPath (location env) = Inr manifestURL \<and> connect env = None \<and>
    esp_initialize env = None \<and> fetchManifest env manifestURL = Inr man \<and>
    select_build man (getChipFamilyName env) = None"
  then have run: "flash env manifestPath eraseFirst =
    ([fireStateEvent None None None (InitializingState MsgInitializing False),
      Device Initialize,
      fireStateEvent None None (Some (getChipFamilyName env))
        (InitializingState (MsgInitialized (getChipFamilyName env)) True),
      fireStateEvent None None (Some (getChipFamilyName env)) (ManifestState MsgFindingFirmware False),
      fireStateEvent (Some man) None (Some (getChipFamilyName env))
        (ManifestState (MsgManifestFound (name man)) True),
      fireStateEvent (Some man) None (Some (getChipFamilyName env))
        (ErrorState (MsgNotSupported (getChipFamilyName env)) NOT_SUPPORTED
           (DetailsString (getChipFamilyName env))),
      Device Disconnect],
     case esp_disconnect env of None \<Rightarrow> Resolved | Some err \<Rightarrow> Rejected err)"
    using no_build_run [of env manifestPath manifestURL man eraseFirst] by blast
  show "states (flash env manifestPath eraseFirst) =
        [InitializingState MsgInitializing False,
         InitializingState (MsgInitialized (getChipFamilyName env)) True,
         ManifestState MsgFindingFirmware False,
         ManifestState (MsgManifestFound (name man)) True,
         ErrorState (MsgNotSupported (getChipFamilyName env)) NOT_SUPPORTED
           (DetailsString (getChipFamilyName env))]"
    by (simp add: run states_def)
  show "last (fst (flash env manifestPath eraseFirst)) = Device Disconnect"
    by (simp add: run)
qed

theorem build_selection_witness:
  "select_build test_manifest ''ESP32'' =
     Some \<lparr>chipFamily = ''ESP32'', improv = False, parts = [\<lparr>path = ''a.bin'', offset = 0\<rparr>]\<rparr> \<and>
   select_build test_manifest ''ESP8266'' = None \<and>
   states (flash (test_env\<lparr>getChipFamilyName := ''ESP8266''\<rparr>) ''manifest.json'' False) =
     [InitializingState MsgInitializing False,
      InitializingState (MsgInitialized ''ESP8266'') True,
      ManifestState MsgFindingFirmware False,
      ManifestState (MsgManifestFound ''Test'') True,
      ErrorState (MsgNotSupported ''ESP8266'') NOT_SUPPORTED (DetailsString ''ESP8266'')] \<and>
   last (fst (flash (test_env\<lparr>getChipFamilyName := ''ESP8266''\<rparr>) ''manifest.json'' False)) =
     Device Disconnect"
  using build_selection
    [of test_manifest "''ESP32''"
        "\<lparr>chipFamily = ''ESP32'', improv = False, parts = [\<lparr>path = ''a.bin'', offset = 0\<rparr>]\<rparr>"
        "test_env\<lparr>getChipFamilyName := ''ESP8266''\<rparr>"
        "''manifest.json''" "''http://host/manifest.json''" False]
  by (simp add: test_env_def test_manifest_def select_build_def)

section \<open>Chip families without a build\<close>

text \<open>
  C10. The detected chip family can be \<^verbatim>\<open>"ESP32-S2"\<close> or \<^verbatim>\<open>"Unknown Chip"\<close> (the type
  of \<^verbatim>\<open>chipFamily\<close>, line 13), but a build's \<^verbatim>\<open>chipFamily\<close> is declared as \<^verbatim>\<open>"ESP32"\<close> or
  \<^verbatim>\<open>"ESP8266"\<close>. With a manifest whose builds keep to the declared type, a run that
  detects one of the two other families selects no build: after the initialization and
  the fetch of the manifest have succeeded it ends with the error state
  \<^verbatim>\<open>NOT_SUPPORTED\<close> and disconnects.
\<close>

theorem undeclared_family_not_supported:
  assumes "resolveURL env manifestPath (location env) = Inr manifestURL"
    and "connect env = None"
    and "esp_initialize env = None"
    and "fetchManifest env manifestURL = Inr man"
    and "getChipFamilyName env = ''ESP32-S2'' \<or> getChipFamilyName env = ''Unknown Chip''"
    and "\<forall>b\<in>set (builds man). chipFamily b = ''ESP32'' \<or> chipFamily b = ''ESP8266''"
  shows "select_build man (getChipFamilyName env) = None \<and>
    shapes (flash env manifestPath eraseFirst) =
      [Initializing False, Initializing True, Manifest False, Manifest True,
       Error NOT_SUPPORTED] \<and>
    last (fst (flash env manifestPath eraseFirst)) = Device Disconnect"
proof -
  have none: "select_build man (getChipFamilyName env) = None"
    using assms(5,6) by (auto simp: select_build_None)
  have run: "flash env manifestPath eraseFirst =
    ([fireStateEvent None None None (InitializingState MsgInitializing False),
      Device Initialize,
      fireStateEvent None None (Some (getChipFamilyName env))
        (InitializingState (MsgInitialized (getChipFamilyName env)) True),
      fireStateEvent None None (Some (getChipFamilyName env)) (ManifestState MsgFindingFirmware False),
      fireStateEvent (Some man) None (Some (getChipFamilyName env))
        (ManifestState (MsgManifestFound (name man)) True),
      fireStateEvent (Some man) None (Some (getChipFamilyName env))
        (ErrorState (MsgNotSupported (getChipFamilyName env)) NOT_SUPPORTED
           (DetailsString (getChipFamilyName env))),
      Device Disconnect],
     case esp_disconnect env of None \<Rightarrow> Resolved | Some err \<Rightarrow> Rejected err)"
    using assms(1-4) none by (rule no_build_run)
  show ?thesis
    by (simp add: none run shapes_def states_def)
qed

theorem undeclared_family_not_supported_witness:
  "select_build test_manifest ''ESP32-S2'' = None \<and>
   shapes (flash (test_env\<lparr>getChipFamilyName := ''ESP32-S2''\<rparr>) ''manifest.json'' True) =
     [Initializing False, Initializing True, Manifest False, Manifest True,
      Error NOT_SUPPORTED] \<and>
   last (fst (flash (test_env\<lparr>getChipFamilyName := ''ESP32-S2''\<rparr>) ''manifest.json'' True)) =
     Device Disconnect"
  using undeclared_family_not_supported
    [of "test_env\<lparr>getChipFamilyName := ''ESP32-S2''\<rparr>" "''manifest.json''"
        "''http://host/manifest.json''" test_manifest True]
  by (simp add: test_env_def test_manifest_def)

section \<open>The write loop and the phases\<close>

lemma loop_event_fire [simp]:
  "loop_event man bld chip (fireStateEvent man bld chip s) = progress_state s"
  by (simp add: fireStateEvent_def carries_def)

lemma onProgress_events:
  "e \<in> set (fst (onProgress (fireStateEvent man bld chip) totalSize totalWritten lastPct b)) \<Longrightarrow>
   loop_event man bld chip e"
  by (auto simp: onProgress_def Let_def split: if_splits)

lemma callbacks_events:
  "e \<in> set (fst (callbacks (fireStateEvent man bld chip) totalSize totalWritten lastPct calls)) \<Longrightarrow>
   loop_event man bld chip e"
proof (induction calls arbitrary: lastPct)
  case Nil
  then show ?case by simp
next
  case (Cons b calls)
  then show ?case
    by (auto simp: Let_def split: prod.splits dest: onProgress_events)
       (metis fst_conv onProgress_events, metis fst_conv)
qed

lemma write_parts_Continue:
  "write_parts env (fireStateEvent man bld chip) totalSize i ps files totalWritten lastPct =
     (evs, Continue n) \<Longrightarrow>
   e \<in> set evs \<Longrightarrow> loop_event man bld chip e"
proof (induction ps arbitrary: i files totalWritten lastPct evs)
  case Nil
  then show ?case by simp
next
  case (Cons p ps)
  then show ?case
    by (auto simp: Let_def split: list.splits prod.splits option.splits dest: callbacks_events)
       (metis fst_conv callbacks_events)
qed


lemma write_parts_Stop:
  "write_parts env (fireStateEvent man bld chip) totalSize i ps bufs totalWritten lastPct =
     (evs, Stop out) \<Longrightarrow>
   (\<forall>e\<in>set evs. loop_event man bld chip e) \<or>
   (\<exists>evs' err. evs = evs' @ [fireStateEvent man bld chip
                   (ErrorState (MsgError err) WRITE_FAILED (DetailsError err)), Device Disconnect] \<and>
      (\<forall>e\<in>set evs'. loop_event man bld chip e))"
proof (induction ps arbitrary: i bufs totalWritten lastPct evs)
  case Nil
  then show ?case by simp
next
  case (Cons p ps)
  show ?case
  proof (cases bufs)
    case Nil
    with Cons.prems show ?thesis by simp
  next
    case (Cons buf bufs)
    obtain calls result where fd: "esp_flashData env i buf (offset p) = (calls, result)"
      by (cases "esp_flashData env i buf (offset p)")
    obtain progress lastPct' where cb:
      "callbacks (fireStateEvent man bld chip) totalSize totalWritten lastPct calls = (progress, lastPct')"
      by (cases "callbacks (fireStateEvent man bld chip) totalSize totalWritten lastPct calls")
    have prog: "\<forall>e\<in>set progress. loop_event man bld chip e"
      using callbacks_events [of _ man bld chip totalSize totalWritten lastPct calls] cb by simp
    show ?thesis
    proof (cases result)
      case (Some err)
      with Cons.prems Cons fd cb
      have "evs = (Device (FlashData buf (offset p)) # progress) @
              [fireStateEvent man bld chip (ErrorState (MsgError err) WRITE_FAILED (DetailsError err)),
               Device Disconnect]"
        by simp
      moreover have "\<forall>e\<in>set (Device (FlashData buf (offset p)) # progress). loop_event man bld chip e"
        using prog by simp
      ultimately show ?thesis by blast
    next
      case None
      obtain evs2 r where rec:
        "write_parts env (fireStateEvent man bld chip) totalSize (Suc i) ps bufs
           (totalWritten + length buf) lastPct' = (evs2, r)"
        by (cases "write_parts env (fireStateEvent man bld chip) totalSize (Suc i) ps bufs
           (totalWritten + length buf) lastPct'")
      with Cons.prems Cons fd cb None
      have evs: "evs = Device (FlashData buf (offset p)) # progress @ evs2" and r: "r = Stop out"
        by simp_all
      from Cons.IH [OF rec [unfolded r]]
      show ?thesis
      proof
        assume "\<forall>e\<in>set evs2. loop_event man bld chip e"
        with prog evs show ?thesis by auto
      next
        assume "\<exists>evs' err. evs2 = evs' @ [fireStateEvent man bld chip
                   (ErrorState (MsgError err) WRITE_FAILED (DetailsError err)), Device Disconnect] \<and>
            (\<forall>e\<in>set evs'. loop_event man bld chip e)"
        then obtain evs' err where
          e2: "evs2 = evs' @ [fireStateEvent man bld chip
                   (ErrorState (MsgError err) WRITE_FAILED (DetailsError err)), Device Disconnect]"
          and l2: "\<forall>e\<in>set evs'. loop_event man bld chip e"
          by blast
        have "evs = (Device (FlashData buf (offset p)) # progress @ evs') @
                [fireStateEvent man bld chip
                   (ErrorState (MsgError err) WRITE_FAILED (DetailsError err)), Device Disconnect]"
          using evs e2 by simp
        moreover have "\<forall>e\<in>set (Device (FlashData buf (offset p)) # progress @ evs').
                         loop_event man bld chip e"
          using prog l2 by auto
        ultimately show ?thesis by blast
      qed
    qed
  qed
qed

lemma shapes_seen: "shapes r = seen (fst r)"
  by (simp add: shapes_def states_def seen_def)

lemma seen_Nil [simp]: "seen [] = []"
  by (simp add: seen_def)

lemma seen_append [simp]: "seen (xs @ ys) = seen xs @ seen ys"
  by (simp add: seen_def)

lemma seen_fire [simp]: "seen (fireStateEvent man bld chip s # evs) = shape_of s # seen evs"
  by (simp add: seen_def)

lemma seen_Device [simp]: "seen (Device c # evs) = seen evs"
  by (simp add: seen_def)

lemma seen_LoggerError [simp]: "seen (LoggerError err # evs) = seen evs"
  by (simp add: seen_def)

lemma seen_loop_events:
  "\<forall>e\<in>set evs. loop_event man bld chip e \<Longrightarrow> \<exists>pcts. seen evs = map Writing pcts"
proof (induction evs)
  case Nil
  have "seen [] = map Writing []" by simp
  then show ?case by blast
next
  case (Cons e evs)
  then obtain pcts where ih: "seen evs = map Writing pcts" by auto
  show ?case
  proof (cases e)
    case (StateChanged d)
    with Cons.prems have "progress_state (stateUpdate d)" by simp
    then obtain pct where "shape_of (stateUpdate d) = Writing pct"
      by (cases "stateUpdate d" rule: progress_state.cases) simp_all
    with StateChanged ih have "seen (e # evs) = map Writing (pct # pcts)"
      by (simp add: seen_def)
    then show ?thesis by blast
  next
    case (LoggerError err)
    with Cons.prems show ?thesis by simp
  next
    case (Device c)
    with ih show ?thesis by auto
  qed
qed


lemma finishing_shapes:
  "shapes (finishing env (fireStateEvent man bld chip)) =
     (if esp_hardReset env = None \<and> esp_disconnect env = None then [Finished] else [])"
  by (simp add: finishing_def shapes_seen split: option.splits)

lemma writing_shapes:
  "\<exists>pcts. shapes (writing env (fireStateEvent man bld chip) b files totalSize) \<in>
     {Writing (Finite 0) # map Writing pcts,
      Writing (Finite 0) # map Writing pcts @ [Error WRITE_FAILED],
      Writing (Finite 0) # map Writing pcts @ [Writing (Finite 100)],
      Writing (Finite 0) # map Writing pcts @ [Writing (Finite 100), Finished]}"
proof -
  obtain evs r where wp:
    "write_parts env (fireStateEvent man bld chip) totalSize 0 (parts b) files 0 (Finite 0) = (evs, r)"
    by (cases "write_parts env (fireStateEvent man bld chip) totalSize 0 (parts b) files 0 (Finite 0)")
  show ?thesis
  proof (cases r)
    case (Continue n)
    with wp have "\<forall>e\<in>set evs. loop_event man bld chip e"
      using write_parts_Continue by blast
    then obtain pcts where "seen evs = map Writing pcts"
      using seen_loop_events by blast
    with wp Continue
    have "shapes (writing env (fireStateEvent man bld chip) b files totalSize) =
            Writing (Finite 0) # map Writing pcts @ Writing (Finite 100) #
              shapes (finishing env (fireStateEvent man bld chip))"
      by (simp add: writing_def shapes_seen)
    then show ?thesis
      by (auto simp: finishing_shapes)
  next
    case (Stop out)
    from write_parts_Stop [OF wp [unfolded Stop]]
    show ?thesis
    proof
      assume "\<forall>e\<in>set evs. loop_event man bld chip e"
      then obtain pcts where "seen evs = map Writing pcts"
        using seen_loop_events by blast
      with wp Stop
      have "shapes (writing env (fireStateEvent man bld chip) b files totalSize) =
              Writing (Finite 0) # map Writing pcts"
        by (simp add: writing_def shapes_seen)
      then show ?thesis by blast
    next
      assume "\<exists>evs' err. evs = evs' @ [fireStateEvent man bld chip
                   (ErrorState (MsgError err) WRITE_FAILED (DetailsError err)), Device Disconnect] \<and>
            (\<forall>e\<in>set evs'. loop_event man bld chip e)"
      then obtain evs' err where
        e: "evs = evs' @ [fireStateEvent man bld chip
                   (ErrorState (MsgError err) WRITE_FAILED (DetailsError err)), Device Disconnect]"
        and l: "\<forall>e\<in>set evs'. loop_event man bld chip e"
        by blast
      from l obtain pcts where "seen evs' = map Writing pcts"
        using seen_loop_events by blast
      with wp Stop e
      have "shapes (writing env (fireStateEvent man bld chip) b files totalSize) =
              Writing (Finite 0) # map Writing pcts @ [Error WRITE_FAILED]"
        by (simp add: writing_def shapes_seen)
      then show ?thesis by blast
    qed
  qed
qed

lemma erasing_shapes:
  "shapes (erasing env eraseFirst (fireStateEvent man bld chip) b files totalSize) =
     (if eraseFirst then
        (case esp_eraseFlash env of
           Some err \<Rightarrow> [Erasing False]
         | None \<Rightarrow> [Erasing False, Erasing True] @
                    shapes (writing env (fireStateEvent man bld chip) b files totalSize))
      else shapes (writing env (fireStateEvent man bld chip) b files totalSize))"
  by (simp add: erasing_def shapes_seen split: option.splits)

lemma preparing_shapes:
  "shapes (preparing env manifestURL eraseFirst (fireStateEvent man bld chip) b) =
     Preparing False #
     (case esp_runStub env of
        Some err \<Rightarrow> []
      | None \<Rightarrow>
          (case await_files (map (download env manifestURL) (parts b)) [] 0 of
             Inl err \<Rightarrow> [Error FAILED_FIRMWARE_DOWNLOAD]
           | Inr (files, totalSize) \<Rightarrow>
               Preparing True #
               shapes (erasing env eraseFirst (fireStateEvent man bld chip) b files totalSize)))"
  by (simp add: preparing_def shapes_seen split: option.splits sum.splits prod.splits)

lemma resolving_shapes:
  "shapes (resolving env manifestURL eraseFirst chip) =
     [Initializing True, Manifest False] @
     (case fetchManifest env manifestURL of
        Inl err \<Rightarrow> [Error FAILED_MANIFEST_FETCH]
      | Inr man \<Rightarrow>
          Manifest True #
          (case select_build man chip of
             None \<Rightarrow> [Error NOT_SUPPORTED]
           | Some b \<Rightarrow>
               shapes (preparing env manifestURL eraseFirst
                         (fireStateEvent (Some man) (Some b) (Some chip)) b)))"
  by (simp add: resolving_def shapes_seen Let_def split: option.splits sum.splits)

lemma initializing_shapes:
  "shapes (initializing env manifestURL eraseFirst) =
     Initializing False #
     (case esp_initialize env of
        Some err \<Rightarrow> (if esp_connected env then [Error FAILED_INITIALIZING] else [])
      | None \<Rightarrow> shapes (resolving env manifestURL eraseFirst (getChipFamilyName env)))"
  by (simp add: initializing_def shapes_seen split: option.splits)

lemma flash_shapes:
  "shapes (flash env manifestPath eraseFirst) =
     (case resolveURL env manifestPath (location env) of
        Inl err \<Rightarrow> []
      | Inr manifestURL \<Rightarrow>
          (case connect env of
             Some err \<Rightarrow> []
           | None \<Rightarrow> shapes (initializing env manifestURL eraseFirst)))"
  by (simp add: flash_def shapes_seen split: option.splits sum.splits)

lemma successful_run_conditions:
  assumes fin: "Finished \<in> set (shapes (flash env manifestPath eraseFirst))"
  obtains manifestURL man b files totalSize where
    "resolveURL env manifestPath (location env) = Inr manifestURL"
    and "connect env = None"
    and "esp_initialize env = None"
    and "fetchManifest env manifestURL = Inr man"
    and "select_build man (getChipFamilyName env) = Some b"
    and "esp_runStub env = None"
    and "await_files (map (download env manifestURL) (parts b)) [] 0 = Inr (files, totalSize)"
    and "eraseFirst \<longrightarrow> esp_eraseFlash env = None"
    and "Finished \<in> set (shapes (writing env
           (fireStateEvent (Some man) (Some b) (Some (getChipFamilyName env))) b files totalSize))"
proof -
  from fin have "\<exists>manifestURL. resolveURL env manifestPath (location env) = Inr manifestURL \<and>
      connect env = None"
    by (cases "resolveURL env manifestPath (location env)"; cases "connect env")
       (simp_all add: flash_shapes)
  then obtain manifestURL where url: "resolveURL env manifestPath (location env) = Inr manifestURL"
    and con: "connect env = None"
    by blast
  from fin url con have init: "esp_initialize env = None"
    by (cases "esp_initialize env") (simp_all add: flash_shapes initializing_shapes)
  from fin url con init have "\<exists>man. fetchManifest env manifestURL = Inr man"
    by (cases "fetchManifest env manifestURL")
       (simp_all add: flash_shapes initializing_shapes resolving_shapes)
  then obtain man where man: "fetchManifest env manifestURL = Inr man" by blast
  from fin url con init man have "\<exists>b. select_build man (getChipFamilyName env) = Some b"
    by (cases "select_build man (getChipFamilyName env)")
       (simp_all add: flash_shapes initializing_shapes resolving_shapes)
  then obtain b where b: "select_build man (getChipFamilyName env) = Some b" by blast
  let ?F = "fireStateEvent (Some man) (Some b) (Some (getChipFamilyName env))"
  have s1: "shapes (flash env manifestPath eraseFirst) =
      [Initializing False, Initializing True, Manifest False, Manifest True] @
      shapes (preparing env manifestURL eraseFirst ?F b)"
    using url con init man b
    by (simp add: flash_shapes initializing_shapes resolving_shapes)
  from fin s1 have stub: "esp_runStub env = None"
    by (cases "esp_runStub env") (simp_all add: preparing_shapes)
  from fin s1 stub have "\<exists>files totalSize.
      await_files (map (download env manifestURL) (parts b)) [] 0 = Inr (files, totalSize)"
    by (cases "await_files (map (download env manifestURL) (parts b)) [] 0")
       (auto simp: preparing_shapes)
  then obtain files totalSize where
    dl: "await_files (map (download env manifestURL) (parts b)) [] 0 = Inr (files, totalSize)"
    by blast
  have s2: "shapes (flash env manifestPath eraseFirst) =
      [Initializing False, Initializing True, Manifest False, Manifest True,
       Preparing False, Preparing True] @
      shapes (erasing env eraseFirst ?F b files totalSize)"
    using s1 stub dl by (simp add: preparing_shapes)
  from fin s2 have er: "eraseFirst \<longrightarrow> esp_eraseFlash env = None"
    by (cases "esp_eraseFlash env") (auto simp: erasing_shapes split: if_splits)
  have s3: "shapes (flash env manifestPath eraseFirst) =
      [Initializing False, Initializing True, Manifest False, Manifest True,
       Preparing False, Preparing True] @
      (if eraseFirst then [Erasing False, Erasing True] else []) @
      shapes (writing env ?F b files totalSize)"
    using s2 er by (simp add: erasing_shapes)
  from fin s3 have fw: "Finished \<in> set (shapes (writing env ?F b files totalSize))"
    by (auto split: if_splits)
  from url con init man b stub dl er fw show thesis
    by (rule that)
qed

section \<open>The run in the test environment\<close>

lemmas percentage_eval =
  percentage_of_def round_to_double_def double_mul_def double_floor_def binade_def
  round_nearest_even_def compute_bitlen Let_def

lemmas flash_eval =
  flash_def initializing_def resolving_def preparing_def erasing_def writing_def finishing_def
  then_run_def disconnect_and_return_def download_def select_build_def onProgress_def
  strict_eq_def states_def shapes_def Let_def

lemma test_percentages:
  "percentage_of 290 1000 = Finite 28" "percentage_of 1000 1000 = Finite 100"
  by (simp_all add: percentage_eval)

lemma test_run_states:
  "states (flash test_env ''manifest.json'' True) =
     [InitializingState MsgInitializing False,
      InitializingState (MsgInitialized ''ESP32'') True,
      ManifestState MsgFindingFirmware False,
      ManifestState (MsgManifestFound ''Test'') True,
      PreparingState MsgPreparing False,
      PreparingState MsgPrepared True,
      ErasingState MsgErasing False,
      ErasingState MsgErased True,
      WritingState (MsgWriteStart (Finite 0)) 1000 0 (Finite 0),
      WritingState (MsgWriteProgress (Finite 28)) 1000 290 (Finite 28),
      WritingState (MsgWriteProgress (Finite 100)) 1000 1000 (Finite 100),
      WritingState MsgWriteDone 1000 1000 (Finite 100),
      FinishedState MsgFinished]"
  by (simp add: test_env_def test_manifest_def flash_eval test_percentages)

lemma test_run_shapes:
  "shapes (flash test_env ''manifest.json'' True) =
     [Initializing False, Initializing True, Manifest False, Manifest True,
      Preparing False, Preparing True, Erasing False, Erasing True,
      Writing (Finite 0), Writing (Finite 28), Writing (Finite 100), Writing (Finite 100),
      Finished]"
  by (simp add: shapes_def test_run_states)

text \<open>
  In the test run the callback receives 290 of 1000 bytes. The quotient rounds to the
  binary64 value nearest to 0.29, which is below 0.29, its product with 100 rounds to
  28.999999999999996, and the progress state carries the percentage 28, where
  \<open>\<lfloor>290 / 1000 * 100\<rfloor>\<close> is 29.
\<close>

lemma test_run_percentage_of_290:
  "states (flash test_env ''manifest.json'' True) ! 9 =
     WritingState (MsgWriteProgress (Finite 28)) 1000 290 (Finite 28) \<and>
   \<lfloor>(290::real) / 1000 * 100\<rfloor> = (29::int)"
  by (simp add: test_run_states)

lemma half_percentages: "percentage_of 500 1000 = Finite 50"
  by (simp add: percentage_eval)

section \<open>A run whose collaborators all succeed\<close>

text \<open>
  The downloads give one buffer for each part, and \<^verbatim>\<open>totalSize\<close> is the sum of their
  lengths (lines 129 to 143). When every call of \<^verbatim>\<open>flashData\<close> succeeds, the write loop
  runs to its end with \<^verbatim>\<open>totalWritten\<close> the sum of the lengths of the buffers; when
  \<^verbatim>\<open>hardReset\<close> and \<^verbatim>\<open>disconnect\<close> succeed too, the run fires the final writing state
  and the finished state, and its promise resolves.
\<close>

lemma await_files_length:
  "await_files proms fs t = Inr (files, totalSize) \<Longrightarrow> length files = length fs + length proms"
  by (induction proms arbitrary: fs t) (auto split: sum.splits)

lemma await_files_total:
  "await_files proms fs (sum_list (map length fs)) = Inr (files, totalSize) \<Longrightarrow>
   totalSize = sum_list (map length files)"
proof (induction proms arbitrary: fs)
  case Nil
  then show ?case by auto
next
  case (Cons r proms)
  show ?case
  proof (cases r)
    case (Inl e)
    with Cons.prems show ?thesis by simp
  next
    case (Inr buf)
    with Cons.prems have "await_files proms (fs @ [buf]) (sum_list (map length (fs @ [buf]))) =
        Inr (files, totalSize)"
      by simp
    then show ?thesis by (rule Cons.IH)
  qed
qed

lemma write_parts_succeeds:
  assumes "length files = length ps"
    and "\<forall>i<length ps. snd (esp_flashData env (k + i) (files ! i) (offset (ps ! i))) = None"
  shows "\<exists>evs. write_parts env fire totalSize k ps files totalWritten lastPct =
           (evs, Continue (totalWritten + sum_list (map length files)))"
  using assms
proof (induction ps arbitrary: k files totalWritten lastPct)
  case Nil
  then show ?case by simp
next
  case (Cons p ps)
  from Cons.prems(1) obtain f fs where files: "files = f # fs" and len: "length fs = length ps"
    by (cases files) auto
  obtain calls result where fd: "esp_flashData env k f (offset p) = (calls, result)"
    by (cases "esp_flashData env k f (offset p)")
  obtain progress lastPct' where cb:
    "callbacks fire totalSize totalWritten lastPct calls = (progress, lastPct')"
    by (cases "callbacks fire totalSize totalWritten lastPct calls")
  from Cons.prems(2) [rule_format, of 0] files fd have res: "result = None" by simp
  have rest: "\<forall>i<length ps. snd (esp_flashData env (Suc k + i) (fs ! i) (offset (ps ! i))) = None"
  proof (intro allI impI)
    fix i assume "i < length ps"
    then have "Suc i < length (p # ps)" by simp
    from Cons.prems(2) [rule_format, OF this] files
    show "snd (esp_flashData env (Suc k + i) (fs ! i) (offset (ps ! i))) = None" by simp
  qed
  from Cons.IH [OF len rest, of "totalWritten + length f" lastPct'] obtain evs where
    "write_parts env fire totalSize (Suc k) ps fs (totalWritten + length f) lastPct' =
       (evs, Continue (totalWritten + length f + sum_list (map length fs)))"
    by blast
  with files fd cb res show ?case by (simp add: add.assoc)
qed

lemma writing_succeeds:
  assumes "length files = length (parts b)"
    and "\<forall>i<length (parts b). snd (esp_flashData env i (files ! i) (offset (parts b ! i))) = None"
    and "esp_hardReset env = None"
    and "esp_disconnect env = None"
  shows "\<exists>evs. writing env (fireStateEvent man bld chip) b files totalSize =
      (fireStateEvent man bld chip (WritingState (MsgWriteStart (Finite 0)) totalSize 0 (Finite 0)) #
       evs @
       [fireStateEvent man bld chip
          (WritingState MsgWriteDone totalSize (sum_list (map length files)) (Finite 100)),
        Device HardReset, Device Disconnect,
        fireStateEvent man bld chip (FinishedState MsgFinished)], Resolved) \<and>
     (\<forall>e\<in>set evs. loop_event man bld chip e)"
proof -
  from write_parts_succeeds [OF assms(1), of env 0 "fireStateEvent man bld chip" totalSize 0 "Finite 0"]
    assms(2)
  obtain evs where wp:
    "write_parts env (fireStateEvent man bld chip) totalSize 0 (parts b) files 0 (Finite 0) =
       (evs, Continue (sum_list (map length files)))"
    by auto
  then have "\<forall>e\<in>set evs. loop_event man bld chip e"
    using write_parts_Continue by blast
  moreover have "writing env (fireStateEvent man bld chip) b files totalSize =
      (fireStateEvent man bld chip (WritingState (MsgWriteStart (Finite 0)) totalSize 0 (Finite 0)) #
       evs @
       [fireStateEvent man bld chip
          (WritingState MsgWriteDone totalSize (sum_list (map length files)) (Finite 100)),
        Device HardReset, Device Disconnect,
        fireStateEvent man bld chip (FinishedState MsgFinished)], Resolved)"
    using wp assms(3,4) by (simp add: writing_def finishing_def then_run_def)
  ultimately show ?thesis by blast
qed

lemma successful_run_outcome:
  assumes "resolveURL env manifestPath (location env) = Inr manifestURL"
    and "connect env = None"
    and "esp_initialize env = None"
    and "fetchManifest env manifestURL = Inr man"
    and "select_build man (getChipFamilyName env) = Some b"
    and "esp_runStub env = None"
    and "await_files (map (download env manifestURL) (parts b)) [] 0 = Inr (files, totalSize)"
    and "eraseFirst \<longrightarrow> esp_eraseFlash env = None"
  shows "snd (flash env manifestPath eraseFirst) =
      snd (writing env (fireStateEvent (Some man) (Some b) (Some (getChipFamilyName env)))
             b files totalSize)"
  using assms
  by (simp add: flash_def initializing_def resolving_def preparing_def erasing_def Let_def)

section \<open>The states of a successful run\<close>

text \<open>
  A run that fires the finished state fires exactly the states of the table, in its
  order.
\<close>

lemma finished_run_sequence:
  "Finished \<in> set (shapes (flash env manifestPath eraseFirst)) \<Longrightarrow>
   \<exists>pcts. shapes (flash env manifestPath eraseFirst) =
     [Initializing False, Initializing True, Manifest False, Manifest True,
      Preparing False, Preparing True] @
     (if eraseFirst then [Erasing False, Erasing True] else []) @
     [Writing (Finite 0)] @ map Writing pcts @ [Writing (Finite 100), Finished]"
proof -
  assume fin: "Finished \<in> set (shapes (flash env manifestPath eraseFirst))"
  then obtain manifestURL man b files totalSize where
    c: "resolveURL env manifestPath (location env) = Inr manifestURL"
      "connect env = None"
      "esp_initialize env = None"
      "fetchManifest env manifestURL = Inr man"
      "select_build man (getChipFamilyName env) = Some b"
      "esp_runStub env = None"
      "await_files (map (download env manifestURL) (parts b)) [] 0 = Inr (files, totalSize)"
      "eraseFirst \<longrightarrow> esp_eraseFlash env = None"
    and fw: "Finished \<in> set (shapes (writing env
           (fireStateEvent (Some man) (Some b) (Some (getChipFamilyName env))) b files totalSize))"
    by (rule successful_run_conditions)
  let ?F = "fireStateEvent (Some man) (Some b) (Some (getChipFamilyName env))"
  have s3: "shapes (flash env manifestPath eraseFirst) =
      [Initializing False, Initializing True, Manifest False, Manifest True,
       Preparing False, Preparing True] @
      (if eraseFirst then [Erasing False, Erasing True] else []) @
      shapes (writing env ?F b files totalSize)"
    using c
    by (simp add: flash_shapes initializing_shapes resolving_shapes preparing_shapes erasing_shapes)
  obtain pcts where "shapes (writing env ?F b files totalSize) \<in>
     {Writing (Finite 0) # map Writing pcts,
      Writing (Finite 0) # map Writing pcts @ [Error WRITE_FAILED],
      Writing (Finite 0) # map Writing pcts @ [Writing (Finite 100)],
      Writing (Finite 0) # map Writing pcts @ [Writing (Finite 100), Finished]}"
    using writing_shapes by blast
  with fw have "shapes (writing env ?F b files totalSize) =
      Writing (Finite 0) # map Writing pcts @ [Writing (Finite 100), Finished]"
    by auto
  with s3 show ?thesis by auto
qed

text \<open>
  C1. A successful run is one in which every collaborator succeeds: the manifest path
  resolves, the connection, the handshake and the fetch of the manifest succeed, the
  manifest has a build for the detected chip family, the stub is uploaded, every part
  is downloaded, the flash is erased if \<^verbatim>\<open>eraseFirst\<close> is set, every call of
  \<^verbatim>\<open>flashData\<close> succeeds, and so do the reset and the disconnect. Such a run fires
  exactly: initializing not done and done, manifest not done and done, preparing not
  done and done, erasing not done and done if and only if \<^verbatim>\<open>eraseFirst\<close> is set,
  writing with percentage 0, any number of writing progress states, writing with
  percentage 100, and finished; and its promise resolves. No phase is repeated or
  skipped.
\<close>

theorem successful_run_sequence:
  assumes "resolveURL env manifestPath (location env) = Inr manifestURL"
    and "connect env = None"
    and "esp_initialize env = None"
    and "fetchManifest env manifestURL = Inr man"
    and "select_build man (getChipFamilyName env) = Some b"
    and "esp_runStub env = None"
    and "await_files (map (download env manifestURL) (parts b)) [] 0 = Inr (files, totalSize)"
    and "eraseFirst \<longrightarrow> esp_eraseFlash env = None"
    and "\<forall>i<length (parts b). snd (esp_flashData env i (files ! i) (offset (parts b ! i))) = None"
    and "esp_hardReset env = None"
    and "esp_disconnect env = None"
  shows "(\<exists>pcts. shapes (flash env manifestPath eraseFirst) =
     [Initializing False, Initializing True, Manifest False, Manifest True,
      Preparing False, Preparing True] @
     (if eraseFirst then [Erasing False, Erasing True] else []) @
     [Writing (Finite 0)] @ map Writing pcts @ [Writing (Finite 100), Finished]) \<and>
    snd (flash env manifestPath eraseFirst) = Resolved"
proof -
  let ?F = "fireStateEvent (Some man) (Some b) (Some (getChipFamilyName env))"
  have len: "length files = length (parts b)"
    using await_files_length [OF assms(7)] by simp
  from writing_succeeds [OF len assms(9-11), of "Some man" "Some b" "Some (getChipFamilyName env)" totalSize]
  obtain evs where
    w: "writing env ?F b files totalSize =
      (?F (WritingState (MsgWriteStart (Finite 0)) totalSize 0 (Finite 0)) # evs @
       [?F (WritingState MsgWriteDone totalSize (sum_list (map length files)) (Finite 100)),
        Device HardReset, Device Disconnect, ?F (FinishedState MsgFinished)], Resolved)"
    and l: "\<forall>e\<in>set evs. loop_event (Some man) (Some b) (Some (getChipFamilyName env)) e"
    by blast
  from l obtain pcts where p: "seen evs = map Writing pcts"
    using seen_loop_events by blast
  have sw: "shapes (writing env ?F b files totalSize) =
      Writing (Finite 0) # map Writing pcts @ [Writing (Finite 100), Finished]"
    unfolding w using p by (simp add: shapes_seen)
  have "shapes (flash env manifestPath eraseFirst) =
      [Initializing False, Initializing True, Manifest False, Manifest True,
       Preparing False, Preparing True] @
      (if eraseFirst then [Erasing False, Erasing True] else []) @
      shapes (writing env ?F b files totalSize)"
    using assms(1-8)
    by (simp add: flash_shapes initializing_shapes resolving_shapes preparing_shapes erasing_shapes)
  with sw have "shapes (flash env manifestPath eraseFirst) =
     [Initializing False, Initializing True, Manifest False, Manifest True,
      Preparing False, Preparing True] @
     (if eraseFirst then [Erasing False, Erasing True] else []) @
     [Writing (Finite 0)] @ map Writing pcts @ [Writing (Finite 100), Finished]"
    by simp
  moreover have "snd (flash env manifestPath eraseFirst) = Resolved"
    using successful_run_outcome [OF assms(1-8)] w by simp
  ultimately show ?thesis by blast
qed

theorem successful_run_sequence_witness:
  "(\<exists>pcts. shapes (flash test_env ''manifest.json'' False) =
     [Initializing False, Initializing True, Manifest False, Manifest True,
      Preparing False, Preparing True] @ [] @
     [Writing (Finite 0)] @ map Writing pcts @ [Writing (Finite 100), Finished]) \<and>
   snd (flash test_env ''manifest.json'' False) = Resolved \<and>
   (\<exists>pcts. shapes (flash test_env ''manifest.json'' True) =
     [Initializing False, Initializing True, Manifest False, Manifest True,
      Preparing False, Preparing True] @ [Erasing False, Erasing True] @
     [Writing (Finite 0)] @ map Writing pcts @ [Writing (Finite 100), Finished]) \<and>
   snd (flash test_env ''manifest.json'' True) = Resolved"
  using successful_run_sequence
    [of test_env "''manifest.json''" "''http://host/manifest.json''" test_manifest
        "\<lparr>chipFamily = ''ESP32'', improv = False, parts = [\<lparr>path = ''a.bin'', offset = 0\<rparr>]\<rparr>"
        "[replicate 1000 0]" 1000 False]
    successful_run_sequence
    [of test_env "''manifest.json''" "''http://host/manifest.json''" test_manifest
        "\<lparr>chipFamily = ''ESP32'', improv = False, parts = [\<lparr>path = ''a.bin'', offset = 0\<rparr>]\<rparr>"
        "[replicate 1000 0]" 1000 True]
  by (simp add: test_env_def test_manifest_def select_build_def download_def)

section \<open>Error and finished are terminal\<close>

lemma orderly_Nil [simp]: "orderly []"
  by (simp add: orderly_def)

lemma orderly_single [simp]: "orderly [s]"
  by (simp add: orderly_def)

lemma orderly_Cons: "\<not> terminal s \<Longrightarrow> orderly l \<Longrightarrow> orderly (s # l)"
  by (simp add: orderly_def)

lemma orderly_Writing: "orderly (map Writing pcts @ l) = orderly l"
  by (induction pcts) (auto simp: orderly_def)

lemma orderly_writing:
  "orderly (shapes (writing env (fireStateEvent man bld chip) b files totalSize))"
proof -
  obtain pcts where "shapes (writing env (fireStateEvent man bld chip) b files totalSize) \<in>
     {Writing (Finite 0) # map Writing pcts,
      Writing (Finite 0) # map Writing pcts @ [Error WRITE_FAILED],
      Writing (Finite 0) # map Writing pcts @ [Writing (Finite 100)],
      Writing (Finite 0) # map Writing pcts @ [Writing (Finite 100), Finished]}"
    using writing_shapes by blast
  moreover have "orderly (Writing (Finite 0) # map Writing pcts)"
    using orderly_Writing [of pcts "[]"] by (simp add: orderly_Cons)
  moreover have "orderly (Writing (Finite 0) # map Writing pcts @ [Error WRITE_FAILED])"
    by (simp add: orderly_Cons orderly_Writing)
  moreover have "orderly (Writing (Finite 0) # map Writing pcts @ [Writing (Finite 100)])"
    by (simp add: orderly_Cons orderly_Writing)
  moreover have "orderly (Writing (Finite 0) # map Writing pcts @ [Writing (Finite 100), Finished])"
    by (simp add: orderly_Cons orderly_Writing)
  ultimately show ?thesis by auto
qed

lemma orderly_erasing:
  "orderly (shapes (erasing env eraseFirst (fireStateEvent man bld chip) b files totalSize))"
  by (simp add: erasing_shapes orderly_writing orderly_Cons split: option.splits)

lemma orderly_preparing:
  "orderly (shapes (preparing env manifestURL eraseFirst (fireStateEvent man bld chip) b))"
  by (simp add: preparing_shapes orderly_erasing orderly_Cons split: option.splits sum.splits prod.splits)

lemma orderly_resolving: "orderly (shapes (resolving env manifestURL eraseFirst chip))"
  by (simp add: resolving_shapes orderly_preparing orderly_Cons split: option.splits sum.splits)

lemma orderly_initializing: "orderly (shapes (initializing env manifestURL eraseFirst))"
  by (simp add: initializing_shapes orderly_resolving orderly_Cons split: option.splits)

lemma orderly_flash: "orderly (shapes (flash env manifestPath eraseFirst))"
  by (simp add: flash_shapes orderly_initializing split: option.splits sum.splits)

text \<open>
  C8. Once a run has fired an error state or the finished state, it fires no further
  state: in the sequence of states of any run, nothing comes after such a state.
\<close>

theorem terminal_state_is_last:
  "shapes (flash env manifestPath eraseFirst) = before @ s # after \<Longrightarrow>
   terminal s \<Longrightarrow> after = []"
proof (rule ccontr)
  assume eq: "shapes (flash env manifestPath eraseFirst) = before @ s # after"
    and t: "terminal s" and ne: "after \<noteq> []"
  from ne have "butlast (before @ s # after) = before @ s # butlast after"
    by (simp add: butlast_append)
  then have "s \<in> set (butlast (shapes (flash env manifestPath eraseFirst)))"
    using eq by simp
  with orderly_flash [of env manifestPath eraseFirst] t show False
    by (simp add: orderly_def)
qed

theorem terminal_state_is_last_witness:
  "shapes (flash test_env ''manifest.json'' True) =
     [Initializing False, Initializing True, Manifest False, Manifest True,
      Preparing False, Preparing True, Erasing False, Erasing True,
      Writing (Finite 0), Writing (Finite 28), Writing (Finite 100), Writing (Finite 100)] @
     Finished # [] \<and> terminal Finished"
  using terminal_state_is_last
    [of test_env "''manifest.json''" True
        "[Initializing False, Initializing True, Manifest False, Manifest True,
      Preparing False, Preparing True, Erasing False, Erasing True,
      Writing (Finite 0), Writing (Finite 28), Writing (Finite 100), Writing (Finite 100)]"
        Finished "[]"]
  by (simp add: test_run_shapes)

section \<open>The context of the states\<close>

lemma late_payload [simp]:
  "late man bld chip \<lparr>stateUpdate = s, ev_manifest = man, ev_build = bld, ev_chipFamily = chip\<rparr> =
   late_shape (shape_of s)"
  by (simp add: late_def carries_def)

lemma late_loop_events:
  "\<forall>e\<in>set evs. loop_event man bld chip e \<Longrightarrow> d \<in> set (emitted evs) \<Longrightarrow> late man bld chip d"
proof (induction evs rule: emitted.induct)
  case 1
  then show ?case by simp
next
  case (2 d' evs)
  from "2.prems"(1) have "progress_state (stateUpdate d')" and c: "carries man bld chip d'"
    by simp_all
  then have "late_shape (shape_of (stateUpdate d'))"
    by (cases "stateUpdate d'" rule: progress_state.cases) simp_all
  with c have "late man bld chip d'" by (simp add: late_def)
  with 2 show ?case by auto
next
  case (3 err evs)
  then show ?case by simp
next
  case (4 c evs)
  then show ?case by simp
qed

lemma late_finishing:
  "d \<in> set (emitted (fst (finishing env (fireStateEvent man bld chip)))) \<Longrightarrow> late man bld chip d"
  by (auto simp: finishing_def split: option.splits)

lemma late_writing:
  assumes "d \<in> set (emitted (fst (writing env (fireStateEvent man bld chip) b files totalSize)))"
  shows "late man bld chip d"
proof -
  obtain evs r where wp:
    "write_parts env (fireStateEvent man bld chip) totalSize 0 (parts b) files 0 (Finite 0) = (evs, r)"
    by (cases "write_parts env (fireStateEvent man bld chip) totalSize 0 (parts b) files 0 (Finite 0)")
  show ?thesis
  proof (cases r)
    case (Continue n)
    with wp have l: "\<forall>e\<in>set evs. loop_event man bld chip e"
      using write_parts_Continue by blast
    from assms wp Continue
    have "d = \<lparr>stateUpdate = WritingState (MsgWriteStart (Finite 0)) totalSize 0 (Finite 0),
                ev_manifest = man, ev_build = bld, ev_chipFamily = chip\<rparr> \<or>
          d \<in> set (emitted evs) \<or>
          d = \<lparr>stateUpdate = WritingState MsgWriteDone totalSize n (Finite 100),
                ev_manifest = man, ev_build = bld, ev_chipFamily = chip\<rparr> \<or>
          d \<in> set (emitted (fst (finishing env (fireStateEvent man bld chip))))"
      by (auto simp: writing_def)
    then show ?thesis
      using late_loop_events [OF l] late_finishing by auto
  next
    case (Stop out)
    from write_parts_Stop [OF wp [unfolded Stop]]
    show ?thesis
    proof
      assume l: "\<forall>e\<in>set evs. loop_event man bld chip e"
      from assms wp Stop
      have "d = \<lparr>stateUpdate = WritingState (MsgWriteStart (Finite 0)) totalSize 0 (Finite 0),
                ev_manifest = man, ev_build = bld, ev_chipFamily = chip\<rparr> \<or>
          d \<in> set (emitted evs)"
        by (auto simp: writing_def)
      then show ?thesis
        using late_loop_events [OF l] by auto
    next
      assume "\<exists>evs' err. evs = evs' @ [fireStateEvent man bld chip
                   (ErrorState (MsgError err) WRITE_FAILED (DetailsError err)), Device Disconnect] \<and>
            (\<forall>e\<in>set evs'. loop_event man bld chip e)"
      then obtain evs' err where
        e: "evs = evs' @ [fireStateEvent man bld chip
                   (ErrorState (MsgError err) WRITE_FAILED (DetailsError err)), Device Disconnect]"
        and l: "\<forall>e\<in>set evs'. loop_event man bld chip e"
        by blast
      from assms wp Stop e
      have "d = \<lparr>stateUpdate = WritingState (MsgWriteStart (Finite 0)) totalSize 0 (Finite 0),
                ev_manifest = man, ev_build = bld, ev_chipFamily = chip\<rparr> \<or>
          d \<in> set (emitted evs') \<or>
          d = \<lparr>stateUpdate = ErrorState (MsgError err) WRITE_FAILED (DetailsError err),
                ev_manifest = man, ev_build = bld, ev_chipFamily = chip\<rparr>"
        by (auto simp: writing_def)
      then show ?thesis
        using late_loop_events [OF l] by auto
    qed
  qed
qed

lemma late_erasing:
  "d \<in> set (emitted (fst (erasing env eraseFirst (fireStateEvent man bld chip) b files totalSize))) \<Longrightarrow>
   late man bld chip d"
  by (auto simp: erasing_def dest: late_writing split: option.splits if_splits)

lemma late_preparing:
  "d \<in> set (emitted (fst (preparing env manifestURL eraseFirst (fireStateEvent man bld chip) b))) \<Longrightarrow>
   late man bld chip d"
  by (auto simp: preparing_def dest: late_erasing split: option.splits sum.splits prod.splits)


lemma context_at_late:
  "late_shape s \<Longrightarrow> fetchManifest env manifestURL = Inr man \<Longrightarrow>
   context_at env manifestURL s =
     (Some man, select_build man (getChipFamilyName env), Some (getChipFamilyName env))"
  by (cases s rule: late_shape.cases) (simp_all add: context_at_def Let_def)

lemma known_preparing:
  assumes "d \<in> set (emitted (fst (preparing env manifestURL eraseFirst
              (fireStateEvent (Some man) (Some b) (Some (getChipFamilyName env))) b)))"
    and "fetchManifest env manifestURL = Inr man"
    and "select_build man (getChipFamilyName env) = Some b"
  shows "(ev_manifest d, ev_build d, ev_chipFamily d) =
         context_at env manifestURL (shape_of (stateUpdate d))"
proof -
  from assms(1) have "late (Some man) (Some b) (Some (getChipFamilyName env)) d"
    by (rule late_preparing)
  then show ?thesis
    using assms(2,3) by (simp add: late_def carries_def context_at_late)
qed

lemma known_resolving:
  assumes "d \<in> set (emitted (fst (resolving env manifestURL eraseFirst (getChipFamilyName env))))"
  shows "(ev_manifest d, ev_build d, ev_chipFamily d) =
         context_at env manifestURL (shape_of (stateUpdate d))"
proof (cases "fetchManifest env manifestURL")
  case (Inl err)
  with assms show ?thesis
    by (auto simp: resolving_def context_at_def Let_def)
next
  case (Inr man)
  show ?thesis
  proof (cases "select_build man (getChipFamilyName env)")
    case None
    with assms Inr show ?thesis
      by (auto simp: resolving_def context_at_def Let_def)
  next
    case (Some b)
    with assms Inr
    have "d = \<lparr>stateUpdate = InitializingState (MsgInitialized (getChipFamilyName env)) True,
                ev_manifest = None, ev_build = None, ev_chipFamily = Some (getChipFamilyName env)\<rparr> \<or>
          d = \<lparr>stateUpdate = ManifestState MsgFindingFirmware False,
                ev_manifest = None, ev_build = None, ev_chipFamily = Some (getChipFamilyName env)\<rparr> \<or>
          d = \<lparr>stateUpdate = ManifestState (MsgManifestFound (name man)) True,
                ev_manifest = Some man, ev_build = Some b,
                ev_chipFamily = Some (getChipFamilyName env)\<rparr> \<or>
          d \<in> set (emitted (fst (preparing env manifestURL eraseFirst
              (fireStateEvent (Some man) (Some b) (Some (getChipFamilyName env))) b)))"
      by (auto simp: resolving_def Let_def)
    then show ?thesis
      using known_preparing [OF _ Inr Some, of d eraseFirst] Inr Some
      by (auto simp: context_at_def Let_def)
  qed
qed

lemma known_flash:
  assumes "d \<in> set (emitted (fst (flash env manifestPath eraseFirst)))"
    and "resolveURL env manifestPath (location env) = Inr manifestURL"
  shows "(ev_manifest d, ev_build d, ev_chipFamily d) =
         context_at env manifestURL (shape_of (stateUpdate d))"
proof (cases "connect env")
  case (Some err)
  with assms show ?thesis by (simp add: flash_def)
next
  case None
  show ?thesis
  proof (cases "esp_initialize env")
    case (Some err)
    with assms None show ?thesis
      by (auto simp: flash_def initializing_def context_at_def Let_def split: if_splits)
  next
    case init: None
    with assms None
    have "d = \<lparr>stateUpdate = InitializingState MsgInitializing False,
                ev_manifest = None, ev_build = None, ev_chipFamily = None\<rparr> \<or>
          d \<in> set (emitted (fst (resolving env manifestURL eraseFirst (getChipFamilyName env))))"
      by (auto simp: flash_def initializing_def)
    then show ?thesis
      using known_resolving [of d env manifestURL eraseFirst]
      by (auto simp: context_at_def Let_def)
  qed
qed

lemma kept_same:
  "\<forall>d\<in>set ds. carries man bld chip d \<Longrightarrow> sorted_wrt context_kept ds"
  by (induction ds) (auto simp: context_kept_def carries_def)

lemma kept_preparing:
  "sorted_wrt context_kept
     (emitted (fst (preparing env manifestURL eraseFirst (fireStateEvent man bld chip) b)))"
  using late_preparing [of _ env manifestURL eraseFirst man bld chip b]
  by (intro kept_same [of _ man bld chip]) (simp add: late_def)

lemma kept_resolving:
  "sorted_wrt context_kept (emitted (fst (resolving env manifestURL eraseFirst chip)))"
proof (cases "fetchManifest env manifestURL")
  case (Inl err)
  then show ?thesis
    by (simp add: resolving_def context_kept_def Let_def)
next
  case (Inr man)
  show ?thesis
  proof (cases "select_build man chip")
    case None
    with Inr show ?thesis
      by (simp add: resolving_def context_kept_def Let_def)
  next
    case (Some b)
    have "\<forall>d\<in>set (emitted (fst (preparing env manifestURL eraseFirst
              (fireStateEvent (Some man) (Some b) (Some chip)) b))).
            carries (Some man) (Some b) (Some chip) d"
      using late_preparing [of _ env manifestURL eraseFirst "Some man" "Some b" "Some chip" b]
      by (simp add: late_def)
    with Inr Some kept_preparing [of env manifestURL eraseFirst "Some man" "Some b" "Some chip" b]
    show ?thesis
      by (simp add: resolving_def context_kept_def carries_def Let_def)
  qed
qed

lemma kept_flash:
  "sorted_wrt context_kept (emitted (fst (flash env manifestPath eraseFirst)))"
  using kept_resolving
  by (simp add: flash_def initializing_def context_kept_def split: sum.splits option.splits)

text \<open>
  C9. The context fields \<^verbatim>\<open>manifest\<close>, \<^verbatim>\<open>build\<close> and \<^verbatim>\<open>chipFamily\<close> are filled in and
  never cleared: a field set on a state has the same value on every later state of the
  run. Every state carries the values the three variables have when it is fired.
\<close>

theorem context_only_grows:
  "(\<forall>i j. i < j \<and> j < length (emitted (fst (flash env manifestPath eraseFirst))) \<longrightarrow>
      context_kept (emitted (fst (flash env manifestPath eraseFirst)) ! i)
                   (emitted (fst (flash env manifestPath eraseFirst)) ! j)) \<and>
   (\<forall>manifestURL. resolveURL env manifestPath (location env) = Inr manifestURL \<longrightarrow>
      (\<forall>d\<in>set (emitted (fst (flash env manifestPath eraseFirst))).
         (ev_manifest d, ev_build d, ev_chipFamily d) =
         context_at env manifestURL (shape_of (stateUpdate d))))"
  using kept_flash [of env manifestPath eraseFirst] known_flash [of _ env manifestPath eraseFirst]
  by (auto simp: sorted_wrt_iff_nth_less)


theorem context_only_grows_witness:
  "(1::nat) < 12 \<and> 12 < length (emitted (fst (flash test_env ''manifest.json'' True))) \<and>
   context_kept (emitted (fst (flash test_env ''manifest.json'' True)) ! 1)
                (emitted (fst (flash test_env ''manifest.json'' True)) ! 12) \<and>
   resolveURL test_env ''manifest.json'' (location test_env) = Inr ''http://host/manifest.json'' \<and>
   emitted (fst (flash test_env ''manifest.json'' True)) ! 12 \<in>
     set (emitted (fst (flash test_env ''manifest.json'' True))) \<and>
   (ev_manifest (emitted (fst (flash test_env ''manifest.json'' True)) ! 12),
    ev_build (emitted (fst (flash test_env ''manifest.json'' True)) ! 12),
    ev_chipFamily (emitted (fst (flash test_env ''manifest.json'' True)) ! 12)) =
   context_at test_env ''http://host/manifest.json''
     (shape_of (stateUpdate (emitted (fst (flash test_env ''manifest.json'' True)) ! 12)))"
proof -
  have len: "length (emitted (fst (flash test_env ''manifest.json'' True))) = 13"
    using test_run_states by (simp add: states_def flip: length_map [of stateUpdate])
  have url: "resolveURL test_env ''manifest.json'' (location test_env) = Inr ''http://host/manifest.json''"
    by (simp add: test_env_def)
  have mem: "emitted (fst (flash test_env ''manifest.json'' True)) ! 12 \<in>
     set (emitted (fst (flash test_env ''manifest.json'' True)))"
    using len by simp
  from context_only_grows [of test_env "''manifest.json''" True] len url mem
  show ?thesis by auto
qed

section \<open>Failures\<close>

lemma await_files_Inl:
  "\<exists>x\<in>set proms. isl x \<Longrightarrow> \<exists>err. await_files proms fs t = Inl err"
  by (induction proms arbitrary: fs t) (auto split: sum.splits)

lemma await_files_first:
  "proms = pre @ Inl err # post \<Longrightarrow> \<forall>x\<in>set pre. \<not> isl x \<Longrightarrow> await_files proms fs t = Inl err"
proof (induction pre arbitrary: proms fs t)
  case Nil
  then show ?case by simp
next
  case (Cons x pre)
  then show ?case by (cases x) auto
qed

lemma write_parts_fails:
  assumes "length files = length ps" and "i < length ps"
    and "snd (esp_flashData env (k + i) (files ! i) (offset (ps ! i))) = Some err"
  shows "\<exists>evs' err' out.
     write_parts env (fireStateEvent man bld chip) totalSize k ps files totalWritten lastPct =
       (evs' @ [fireStateEvent man bld chip
                  (ErrorState (MsgError err') WRITE_FAILED (DetailsError err')),
                Device Disconnect], Stop out) \<and>
     (\<forall>e\<in>set evs'. loop_event man bld chip e)"
  using assms
proof (induction ps arbitrary: i k files totalWritten lastPct)
  case Nil
  then show ?case by simp
next
  case (Cons p ps)
  from Cons.prems(1) obtain f fs where files: "files = f # fs" and len: "length fs = length ps"
    by (cases files) auto
  obtain calls result where fd: "esp_flashData env k f (offset p) = (calls, result)"
    by (cases "esp_flashData env k f (offset p)")
  obtain progress lastPct' where cb:
    "callbacks (fireStateEvent man bld chip) totalSize totalWritten lastPct calls = (progress, lastPct')"
    by (cases "callbacks (fireStateEvent man bld chip) totalSize totalWritten lastPct calls")
  have prog: "\<forall>e\<in>set progress. loop_event man bld chip e"
    using callbacks_events [of _ man bld chip totalSize totalWritten lastPct calls] cb by simp
  show ?case
  proof (cases result)
    case (Some err')
    have "write_parts env (fireStateEvent man bld chip) totalSize k (p # ps) files totalWritten lastPct =
       ((Device (FlashData f (offset p)) # progress) @
        [fireStateEvent man bld chip (ErrorState (MsgError err') WRITE_FAILED (DetailsError err')),
         Device Disconnect], Stop (snd (disconnect_and_return env)))"
      using files fd cb Some by simp
    moreover have "\<forall>e\<in>set (Device (FlashData f (offset p)) # progress). loop_event man bld chip e"
      using prog by simp
    ultimately show ?thesis by blast
  next
    case None
    with Cons.prems(3) files fd have "i \<noteq> 0"
      by (cases i) auto
    then obtain j where i: "i = Suc j" by (cases i) auto
    with Cons.prems files have j: "j < length ps"
      and fail: "snd (esp_flashData env (Suc k + j) (fs ! j) (offset (ps ! j))) = Some err"
      by simp_all
    from Cons.IH [OF len j fail, of "totalWritten + length f" lastPct']
    obtain evs' err' out where
      rec: "write_parts env (fireStateEvent man bld chip) totalSize (Suc k) ps fs
              (totalWritten + length f) lastPct' =
            (evs' @ [fireStateEvent man bld chip
                  (ErrorState (MsgError err') WRITE_FAILED (DetailsError err')),
                Device Disconnect], Stop out)"
      and l: "\<forall>e\<in>set evs'. loop_event man bld chip e"
      by blast
    have "write_parts env (fireStateEvent man bld chip) totalSize k (p # ps) files totalWritten lastPct =
       ((Device (FlashData f (offset p)) # progress @ evs') @
        [fireStateEvent man bld chip (ErrorState (MsgError err') WRITE_FAILED (DetailsError err')),
         Device Disconnect], Stop out)"
      using files fd cb None rec by simp
    moreover have "\<forall>e\<in>set (Device (FlashData f (offset p)) # progress @ evs'). loop_event man bld chip e"
      using prog l by auto
    ultimately show ?thesis by blast
  qed
qed

lemma filter_error_Writing [simp]: "filter is_error (map Writing pcts) = []"
  by (induction pcts) simp_all

lemma writing_fails:
  assumes "length files = length (parts b)" and "i < length (parts b)"
    and "snd (esp_flashData env i (files ! i) (offset (parts b ! i))) = Some err"
  shows "\<exists>pcts. shapes (writing env (fireStateEvent man bld chip) b files totalSize) =
            Writing (Finite 0) # map Writing pcts @ [Error WRITE_FAILED] \<and>
         last (fst (writing env (fireStateEvent man bld chip) b files totalSize)) = Device Disconnect"
proof -
  from write_parts_fails [OF assms(1,2), of env 0 err man bld chip totalSize 0 "Finite 0"] assms(3)
  obtain evs' err' out where
    wp: "write_parts env (fireStateEvent man bld chip) totalSize 0 (parts b) files 0 (Finite 0) =
       (evs' @ [fireStateEvent man bld chip
                  (ErrorState (MsgError err') WRITE_FAILED (DetailsError err')),
                Device Disconnect], Stop out)"
    and l: "\<forall>e\<in>set evs'. loop_event man bld chip e"
    by auto
  from l obtain pcts where "seen evs' = map Writing pcts"
    using seen_loop_events by blast
  with wp have "shapes (writing env (fireStateEvent man bld chip) b files totalSize) =
            Writing (Finite 0) # map Writing pcts @ [Error WRITE_FAILED] \<and>
         last (fst (writing env (fireStateEvent man bld chip) b files totalSize)) = Device Disconnect"
    by (simp add: writing_def shapes_seen)
  then show ?thesis by blast
qed


lemma last_then_run: "fst r \<noteq> [] \<Longrightarrow> last (fst (then_run evs r)) = last (fst r)"
  by simp

lemma erasing_write_fails:
  assumes "length files = length (parts b)" and "i < length (parts b)"
    and "snd (esp_flashData env i (files ! i) (offset (parts b ! i))) = Some err"
    and "eraseFirst \<longrightarrow> esp_eraseFlash env = None"
  shows "\<exists>pcts. shapes (erasing env eraseFirst (fireStateEvent man bld chip) b files totalSize) =
            (if eraseFirst then [Erasing False, Erasing True] else []) @
            Writing (Finite 0) # map Writing pcts @ [Error WRITE_FAILED] \<and>
         last (fst (erasing env eraseFirst (fireStateEvent man bld chip) b files totalSize)) =
           Device Disconnect"
proof -
  from writing_fails [OF assms(1-3), of man bld chip totalSize]
  obtain pcts where
    w: "shapes (writing env (fireStateEvent man bld chip) b files totalSize) =
            Writing (Finite 0) # map Writing pcts @ [Error WRITE_FAILED]"
    and l: "last (fst (writing env (fireStateEvent man bld chip) b files totalSize)) = Device Disconnect"
    by blast
  from w have ne: "fst (writing env (fireStateEvent man bld chip) b files totalSize) \<noteq> []"
    by (auto simp: shapes_seen)
  have "shapes (erasing env eraseFirst (fireStateEvent man bld chip) b files totalSize) =
            (if eraseFirst then [Erasing False, Erasing True] else []) @
            Writing (Finite 0) # map Writing pcts @ [Error WRITE_FAILED] \<and>
         last (fst (erasing env eraseFirst (fireStateEvent man bld chip) b files totalSize)) =
           Device Disconnect"
    using w l ne assms(4) by (simp add: erasing_shapes) (simp add: erasing_def)
  then show ?thesis by blast
qed

text \<open>
  C2, as the code has it. The claim is that every run in which a phase operation fails
  fires exactly one error state, with the tag of that phase, and attempts a disconnect,
  a cancelled connection apart. Two runs show that it fails as stated: a handshake that
  fails with the device no longer connected (the guard of line 51) fires no error state
  and calls no disconnect; and a part whose download fails while \<^verbatim>\<open>runStub\<close> rejects
  (line 124 is not guarded) fires no error state either.
\<close>

theorem failure_without_error_state:
  "esp_initialize (test_env\<lparr>esp_initialize := Some (Thrown ''Timeout''), esp_connected := False\<rparr>) =
     Some (Thrown ''Timeout'') \<and>
   shapes (flash (test_env\<lparr>esp_initialize := Some (Thrown ''Timeout''), esp_connected := False\<rparr>)
     ''manifest.json'' False) = [Initializing False] \<and>
   Device Disconnect \<notin>
     set (fst (flash (test_env\<lparr>esp_initialize := Some (Thrown ''Timeout''), esp_connected := False\<rparr>)
       ''manifest.json'' False)) \<and>
   download
     (test_env\<lparr>fetchPart := (\<lambda>url. Inr \<lparr>ok = False, status = 404, arrayBuffer = Inr []\<rparr>),
                esp_runStub := Some (Thrown ''Timeout'')\<rparr>)
     ''http://host/manifest.json'' \<lparr>path = ''a.bin'', offset = 0\<rparr> = Inl (DownloadError ''a.bin'' 404) \<and>
   shapes (flash
     (test_env\<lparr>fetchPart := (\<lambda>url. Inr \<lparr>ok = False, status = 404, arrayBuffer = Inr []\<rparr>),
                esp_runStub := Some (Thrown ''Timeout'')\<rparr>) ''manifest.json'' False) =
     [Initializing False, Initializing True, Manifest False, Manifest True, Preparing False] \<and>
   Device Disconnect \<notin>
     set (fst (flash
       (test_env\<lparr>fetchPart := (\<lambda>url. Inr \<lparr>ok = False, status = 404, arrayBuffer = Inr []\<rparr>),
                  esp_runStub := Some (Thrown ''Timeout'')\<rparr>) ''manifest.json'' False))"
  by (simp add: test_env_def test_manifest_def flash_eval fireStateEvent_def)


text \<open>
  C2, amended. In a run that has connected, the first operation to fail decides: a
  handshake that fails with the device still connected, a manifest that cannot be
  fetched, a manifest without a build for the chip, a part that cannot be downloaded
  once \<^verbatim>\<open>runStub\<close> has succeeded, or a call of \<^verbatim>\<open>flashData\<close> that fails (all parts
  downloaded and the erasure, if any, done). The run then fires exactly one error state,
  its last state, with the tag of that phase, and its last action is the call of
  \<^verbatim>\<open>disconnect\<close>. A handshake that fails with the device no longer connected fires
  no error state and calls no disconnect.
\<close>

theorem first_failure_ends_in_error:
  assumes "resolveURL env manifestPath (location env) = Inr manifestURL"
    and "connect env = None"
  shows
    "(esp_initialize env \<noteq> None \<and> esp_connected env \<longrightarrow>
        ends_in_error (flash env manifestPath eraseFirst) FAILED_INITIALIZING) \<and>
     (esp_initialize env \<noteq> None \<and> \<not> esp_connected env \<longrightarrow>
        shapes (flash env manifestPath eraseFirst) = [Initializing False] \<and>
        Device Disconnect \<notin> set (fst (flash env manifestPath eraseFirst))) \<and>
     (esp_initialize env = None \<and> isl (fetchManifest env manifestURL) \<longrightarrow>
        ends_in_error (flash env manifestPath eraseFirst) FAILED_MANIFEST_FETCH) \<and>
     (esp_initialize env = None \<and> fetchManifest env manifestURL = Inr man \<and>
      select_build man (getChipFamilyName env) = None \<longrightarrow>
        ends_in_error (flash env manifestPath eraseFirst) NOT_SUPPORTED) \<and>
     (esp_initialize env = None \<and> fetchManifest env manifestURL = Inr man \<and>
      select_build man (getChipFamilyName env) = Some b \<and> esp_runStub env = None \<and>
      (\<exists>p\<in>set (parts b). isl (download env manifestURL p)) \<longrightarrow>
        ends_in_error (flash env manifestPath eraseFirst) FAILED_FIRMWARE_DOWNLOAD) \<and>
     (esp_initialize env = None \<and> fetchManifest env manifestURL = Inr man \<and>
      select_build man (getChipFamilyName env) = Some b \<and> esp_runStub env = None \<and>
      await_files (map (download env manifestURL) (parts b)) [] 0 = Inr (files, totalSize) \<and>
      (eraseFirst \<longrightarrow> esp_eraseFlash env = None) \<and>
      i < length (parts b) \<and>
      snd (esp_flashData env i (files ! i) (offset (parts b ! i))) \<noteq> None \<longrightarrow>
        ends_in_error (flash env manifestPath eraseFirst) WRITE_FAILED)"
proof (intro conjI impI)
  assume h: "esp_initialize env \<noteq> None \<and> esp_connected env"
  with assms have "shapes (flash env manifestPath eraseFirst) =
      [Initializing False, Error FAILED_INITIALIZING]"
    by (auto simp: flash_shapes initializing_shapes)
  moreover from assms h have "last (fst (flash env manifestPath eraseFirst)) = Device Disconnect"
    by (auto simp: flash_def initializing_def)
  ultimately show "ends_in_error (flash env manifestPath eraseFirst) FAILED_INITIALIZING"
    by (simp add: ends_in_error_def)
next
  assume h: "esp_initialize env \<noteq> None \<and> \<not> esp_connected env"
  with assms show "shapes (flash env manifestPath eraseFirst) = [Initializing False]"
    by (auto simp: flash_shapes initializing_shapes)
  from assms h show "Device Disconnect \<notin> set (fst (flash env manifestPath eraseFirst))"
    by (auto simp: flash_def initializing_def fireStateEvent_def)
next
  assume h: "esp_initialize env = None \<and> isl (fetchManifest env manifestURL)"
  with assms have "shapes (flash env manifestPath eraseFirst) =
      [Initializing False, Initializing True, Manifest False, Error FAILED_MANIFEST_FETCH]"
    by (cases "fetchManifest env manifestURL")
       (auto simp: flash_shapes initializing_shapes resolving_shapes)
  moreover from assms h have "last (fst (flash env manifestPath eraseFirst)) = Device Disconnect"
    by (cases "fetchManifest env manifestURL")
       (auto simp: flash_def initializing_def resolving_def Let_def)
  ultimately show "ends_in_error (flash env manifestPath eraseFirst) FAILED_MANIFEST_FETCH"
    by (simp add: ends_in_error_def)
next
  assume h: "esp_initialize env = None \<and> fetchManifest env manifestURL = Inr man \<and>
      select_build man (getChipFamilyName env) = None"
  with assms have "shapes (flash env manifestPath eraseFirst) =
      [Initializing False, Initializing True, Manifest False, Manifest True, Error NOT_SUPPORTED]"
    by (auto simp: flash_shapes initializing_shapes resolving_shapes)
  moreover from assms h have "last (fst (flash env manifestPath eraseFirst)) = Device Disconnect"
    by (auto simp: flash_def initializing_def resolving_def Let_def)
  ultimately show "ends_in_error (flash env manifestPath eraseFirst) NOT_SUPPORTED"
    by (simp add: ends_in_error_def)
next
  assume h: "esp_initialize env = None \<and> fetchManifest env manifestURL = Inr man \<and>
      select_build man (getChipFamilyName env) = Some b \<and> esp_runStub env = None \<and>
      (\<exists>p\<in>set (parts b). isl (download env manifestURL p))"
  then have "\<exists>x\<in>set (map (download env manifestURL) (parts b)). isl x" by auto
  then obtain err where
    dl: "await_files (map (download env manifestURL) (parts b)) [] 0 = Inl err"
    using await_files_Inl by blast
  with assms h have "shapes (flash env manifestPath eraseFirst) =
      [Initializing False, Initializing True, Manifest False, Manifest True, Preparing False,
       Error FAILED_FIRMWARE_DOWNLOAD]"
    by (auto simp: flash_shapes initializing_shapes resolving_shapes preparing_shapes)
  moreover from assms h dl have "last (fst (flash env manifestPath eraseFirst)) = Device Disconnect"
    by (auto simp: flash_def initializing_def resolving_def preparing_def Let_def)
  ultimately show "ends_in_error (flash env manifestPath eraseFirst) FAILED_FIRMWARE_DOWNLOAD"
    by (simp add: ends_in_error_def)
next
  assume h: "esp_initialize env = None \<and> fetchManifest env manifestURL = Inr man \<and>
      select_build man (getChipFamilyName env) = Some b \<and> esp_runStub env = None \<and>
      await_files (map (download env manifestURL) (parts b)) [] 0 = Inr (files, totalSize) \<and>
      (eraseFirst \<longrightarrow> esp_eraseFlash env = None) \<and>
      i < length (parts b) \<and>
      snd (esp_flashData env i (files ! i) (offset (parts b ! i))) \<noteq> None"
  then obtain err where
    fail: "snd (esp_flashData env i (files ! i) (offset (parts b ! i))) = Some err"
    by auto
  from h have len: "length files = length (parts b)"
    using await_files_length [of "map (download env manifestURL) (parts b)" "[]" 0 files totalSize]
    by simp
  let ?F = "fireStateEvent (Some man) (Some b) (Some (getChipFamilyName env))"
  from h have i: "i < length (parts b)" and er: "eraseFirst \<longrightarrow> esp_eraseFlash env = None"
    by simp_all
  from erasing_write_fails [OF len i fail er, of "Some man" "Some b" "Some (getChipFamilyName env)" totalSize]
  obtain pcts where
    sh: "shapes (erasing env eraseFirst ?F b files totalSize) =
            (if eraseFirst then [Erasing False, Erasing True] else []) @
            Writing (Finite 0) # map Writing pcts @ [Error WRITE_FAILED]"
    and la: "last (fst (erasing env eraseFirst ?F b files totalSize)) = Device Disconnect"
    by blast
  from sh have ne: "fst (erasing env eraseFirst ?F b files totalSize) \<noteq> []"
    by (auto simp: shapes_seen)
  have "shapes (flash env manifestPath eraseFirst) =
      [Initializing False, Initializing True, Manifest False, Manifest True,
       Preparing False, Preparing True] @
      (if eraseFirst then [Erasing False, Erasing True] else []) @
      Writing (Finite 0) # map Writing pcts @ [Error WRITE_FAILED]"
    using assms h sh
    by (simp add: flash_shapes initializing_shapes resolving_shapes preparing_shapes)
  moreover have "last (fst (flash env manifestPath eraseFirst)) = Device Disconnect"
    using assms h la ne
    by (simp add: flash_def initializing_def resolving_def preparing_def Let_def)
  ultimately show "ends_in_error (flash env manifestPath eraseFirst) WRITE_FAILED"
    by (simp add: ends_in_error_def)
qed


theorem first_failure_ends_in_error_witness:
  "(esp_initialize (test_env\<lparr>esp_initialize := Some (Thrown ''Timeout'')\<rparr>) \<noteq> None \<and>
    esp_connected (test_env\<lparr>esp_initialize := Some (Thrown ''Timeout'')\<rparr>) \<and>
    ends_in_error (flash (test_env\<lparr>esp_initialize := Some (Thrown ''Timeout'')\<rparr>)
      ''manifest.json'' False) FAILED_INITIALIZING) \<and>
   (isl (fetchManifest (test_env\<lparr>fetchManifest := (\<lambda>url. Inl (Thrown ''Failed to fetch''))\<rparr>)
      ''http://host/manifest.json'') \<and>
    ends_in_error (flash (test_env\<lparr>fetchManifest := (\<lambda>url. Inl (Thrown ''Failed to fetch''))\<rparr>)
      ''manifest.json'' False) FAILED_MANIFEST_FETCH) \<and>
   (select_build test_manifest ''ESP8266'' = None \<and>
    ends_in_error (flash (test_env\<lparr>getChipFamilyName := ''ESP8266''\<rparr>)
      ''manifest.json'' False) NOT_SUPPORTED) \<and>
   (isl (download
      (test_env\<lparr>fetchPart := (\<lambda>url. Inr \<lparr>ok = False, status = 404, arrayBuffer = Inr []\<rparr>)\<rparr>)
      ''http://host/manifest.json'' \<lparr>path = ''a.bin'', offset = 0\<rparr>) \<and>
    ends_in_error
      (flash (test_env\<lparr>fetchPart := (\<lambda>url. Inr \<lparr>ok = False, status = 404, arrayBuffer = Inr []\<rparr>)\<rparr>)
      ''manifest.json'' False) FAILED_FIRMWARE_DOWNLOAD) \<and>
   (snd (esp_flashData
      (test_env\<lparr>esp_flashData := (\<lambda>i file off. ([290], Some (Thrown ''Timeout'')))\<rparr>)
      0 (replicate 1000 0) 0) \<noteq> None \<and>
    ends_in_error
      (flash (test_env\<lparr>esp_flashData := (\<lambda>i file off. ([290], Some (Thrown ''Timeout'')))\<rparr>)
      ''manifest.json'' True) WRITE_FAILED)"
proof -
  let ?b = "\<lparr>chipFamily = ''ESP32'', improv = False, parts = [\<lparr>path = ''a.bin'', offset = 0\<rparr>]\<rparr>"
  have 1: "esp_initialize (test_env\<lparr>esp_initialize := Some (Thrown ''Timeout'')\<rparr>) \<noteq> None \<and>
    esp_connected (test_env\<lparr>esp_initialize := Some (Thrown ''Timeout'')\<rparr>) \<and>
    ends_in_error (flash (test_env\<lparr>esp_initialize := Some (Thrown ''Timeout'')\<rparr>)
      ''manifest.json'' False) FAILED_INITIALIZING"
    using first_failure_ends_in_error
      [of "test_env\<lparr>esp_initialize := Some (Thrown ''Timeout'')\<rparr>" "''manifest.json''"
          "''http://host/manifest.json''" False test_manifest ?b "[]" 0 0]
    by (simp add: test_env_def)
  have 2: "isl (fetchManifest (test_env\<lparr>fetchManifest := (\<lambda>url. Inl (Thrown ''Failed to fetch''))\<rparr>)
      ''http://host/manifest.json'') \<and>
    ends_in_error (flash (test_env\<lparr>fetchManifest := (\<lambda>url. Inl (Thrown ''Failed to fetch''))\<rparr>)
      ''manifest.json'' False) FAILED_MANIFEST_FETCH"
    using first_failure_ends_in_error
      [of "test_env\<lparr>fetchManifest := (\<lambda>url. Inl (Thrown ''Failed to fetch''))\<rparr>" "''manifest.json''"
          "''http://host/manifest.json''" False test_manifest ?b "[]" 0 0]
    by (simp add: test_env_def)
  have 3: "select_build test_manifest ''ESP8266'' = None \<and>
    ends_in_error (flash (test_env\<lparr>getChipFamilyName := ''ESP8266''\<rparr>)
      ''manifest.json'' False) NOT_SUPPORTED"
    using first_failure_ends_in_error
      [of "test_env\<lparr>getChipFamilyName := ''ESP8266''\<rparr>" "''manifest.json''"
          "''http://host/manifest.json''" False test_manifest ?b "[]" 0 0]
    by (simp add: test_env_def test_manifest_def select_build_def)
  have 4: "isl (download
      (test_env\<lparr>fetchPart := (\<lambda>url. Inr \<lparr>ok = False, status = 404, arrayBuffer = Inr []\<rparr>)\<rparr>)
      ''http://host/manifest.json'' \<lparr>path = ''a.bin'', offset = 0\<rparr>) \<and>
    ends_in_error
      (flash (test_env\<lparr>fetchPart := (\<lambda>url. Inr \<lparr>ok = False, status = 404, arrayBuffer = Inr []\<rparr>)\<rparr>)
      ''manifest.json'' False) FAILED_FIRMWARE_DOWNLOAD"
    using first_failure_ends_in_error
      [of "test_env\<lparr>fetchPart := (\<lambda>url. Inr \<lparr>ok = False, status = 404, arrayBuffer = Inr []\<rparr>)\<rparr>"
          "''manifest.json''" "''http://host/manifest.json''" False test_manifest ?b "[]" 0 0]
    by (simp add: test_env_def test_manifest_def select_build_def download_def)
  have 5: "snd (esp_flashData
      (test_env\<lparr>esp_flashData := (\<lambda>i file off. ([290], Some (Thrown ''Timeout'')))\<rparr>)
      0 (replicate 1000 0) 0) \<noteq> None \<and>
    ends_in_error
      (flash (test_env\<lparr>esp_flashData := (\<lambda>i file off. ([290], Some (Thrown ''Timeout'')))\<rparr>)
      ''manifest.json'' True) WRITE_FAILED"
    using first_failure_ends_in_error
      [of "test_env\<lparr>esp_flashData := (\<lambda>i file off. ([290], Some (Thrown ''Timeout'')))\<rparr>"
          "''manifest.json''" "''http://host/manifest.json''" True test_manifest ?b
          "[replicate 1000 0]" 1000 0]
    by (simp add: test_env_def test_manifest_def select_build_def download_def)
  from 1 2 3 4 5 show ?thesis by blast
qed

section \<open>A part that cannot be downloaded\<close>

lemma download_not_ok:
  "resolveURL env (path p) manifestURL = Inr partURL \<Longrightarrow> fetchPart env partURL = Inr resp \<Longrightarrow>
   \<not> ok resp \<Longrightarrow> download env manifestURL p = Inl (DownloadError (path p) (status resp))"
  by (simp add: download_def)

text \<open>
  C6, as the code has it. The claim is that for every part whose fetch returns a status
  that is not a success the run ends with the error state \<^verbatim>\<open>FAILED_FIRMWARE_DOWNLOAD\<close>
  that carries this status and the part's path. Two runs show that it fails as stated.
  When the fetches of two parts fail, with the statuses 404 and 500, the loop of lines
  129 to 143 reports the first and returns: no state carries the path and the status of
  the second. And the downloads are awaited after \<^verbatim>\<open>runStub\<close> (line 124), which is
  not guarded: when \<^verbatim>\<open>runStub\<close> rejects, the promise of \<^verbatim>\<open>flash\<close> rejects and no error
  state is fired.
\<close>

theorem failed_download_unreported:
  "fetchPart not_found_env ''http://host/b.bin'' =
     Inr \<lparr>ok = False, status = 500, arrayBuffer = Inr []\<rparr> \<and>
   states (flash not_found_env ''manifest.json'' False) =
     [InitializingState MsgInitializing False,
      InitializingState (MsgInitialized ''ESP32'') True,
      ManifestState MsgFindingFirmware False,
      ManifestState (MsgManifestFound ''Test'') True,
      PreparingState MsgPreparing False,
      ErrorState (MsgError (DownloadError ''a.bin'' 404)) FAILED_FIRMWARE_DOWNLOAD
        (DetailsError (DownloadError ''a.bin'' 404))] \<and>
   fetchPart (not_found_env\<lparr>esp_runStub := Some (Thrown ''Timeout'')\<rparr>) ''http://host/a.bin'' =
     Inr \<lparr>ok = False, status = 404, arrayBuffer = Inr []\<rparr> \<and>
   states (flash (not_found_env\<lparr>esp_runStub := Some (Thrown ''Timeout'')\<rparr>) ''manifest.json'' False) =
     [InitializingState MsgInitializing False,
      InitializingState (MsgInitialized ''ESP32'') True,
      ManifestState MsgFindingFirmware False,
      ManifestState (MsgManifestFound ''Test'') True,
      PreparingState MsgPreparing False] \<and>
   snd (flash (not_found_env\<lparr>esp_runStub := Some (Thrown ''Timeout'')\<rparr>) ''manifest.json'' False) =
     Rejected (Thrown ''Timeout'')"
  by (simp add: not_found_env_def two_part_manifest_def test_env_def flash_eval fireStateEvent_def)


text \<open>
  C6, amended. When \<^verbatim>\<open>runStub\<close> has succeeded, and the first part (in the order of the
  build) whose download fails is one whose fetch, at its path resolved against the
  manifest's URL, returns a status that is not a success, the run ends with the error
  state \<^verbatim>\<open>FAILED_FIRMWARE_DOWNLOAD\<close>, whose message and details are the error that holds
  the part's path and the status. It is fired right after the state preparing (not
  done): the run fires no erasing and no writing state, and ends by the call of
  \<^verbatim>\<open>disconnect\<close>.
\<close>

theorem failed_download_reported:
  assumes "resolveURL env manifestPath (location env) = Inr manifestURL"
    and "connect env = None"
    and "esp_initialize env = None"
    and "fetchManifest env manifestURL = Inr man"
    and "select_build man (getChipFamilyName env) = Some b"
    and "esp_runStub env = None"
    and "parts b = pre @ p # post"
    and "\<forall>q\<in>set pre. \<not> isl (download env manifestURL q)"
    and "resolveURL env (path p) manifestURL = Inr partURL"
    and "fetchPart env partURL = Inr resp"
    and "\<not> ok resp"
  shows "states (flash env manifestPath eraseFirst) =
      [InitializingState MsgInitializing False,
       InitializingState (MsgInitialized (getChipFamilyName env)) True,
       ManifestState MsgFindingFirmware False,
       ManifestState (MsgManifestFound (name man)) True,
       PreparingState MsgPreparing False,
       ErrorState (MsgError (DownloadError (path p) (status resp))) FAILED_FIRMWARE_DOWNLOAD
         (DetailsError (DownloadError (path p) (status resp)))] \<and>
     last (fst (flash env manifestPath eraseFirst)) = Device Disconnect"
proof -
  have "download env manifestURL p = Inl (DownloadError (path p) (status resp))"
    using assms(9-11) by (rule download_not_ok)
  then have "map (download env manifestURL) (parts b) =
      map (download env manifestURL) pre @ Inl (DownloadError (path p) (status resp)) #
      map (download env manifestURL) post"
    using assms(7) by simp
  moreover have "\<forall>x\<in>set (map (download env manifestURL) pre). \<not> isl x"
    using assms(8) by simp
  ultimately have "await_files (map (download env manifestURL) (parts b)) [] 0 =
      Inl (DownloadError (path p) (status resp))"
    by (rule await_files_first)
  with assms(1-6) show ?thesis
    by (simp add: flash_def initializing_def resolving_def preparing_def states_def Let_def)
qed

theorem failed_download_reported_witness:
  "parts \<lparr>chipFamily = ''ESP32'', improv = False, parts = [\<lparr>path = ''a.bin'', offset = 0\<rparr>]\<rparr> =
     [] @ \<lparr>path = ''a.bin'', offset = 0\<rparr> # [] \<and>
   resolveURL
     (test_env\<lparr>fetchPart := (\<lambda>url. Inr \<lparr>ok = False, status = 404, arrayBuffer = Inr []\<rparr>)\<rparr>)
     ''a.bin'' ''http://host/manifest.json'' = Inr ''http://host/a.bin'' \<and>
   \<not> ok \<lparr>ok = False, status = 404, arrayBuffer = Inr []\<rparr> \<and>
   states (flash
     (test_env\<lparr>fetchPart := (\<lambda>url. Inr \<lparr>ok = False, status = 404, arrayBuffer = Inr []\<rparr>)\<rparr>)
     ''manifest.json'' True) =
     [InitializingState MsgInitializing False,
      InitializingState (MsgInitialized ''ESP32'') True,
      ManifestState MsgFindingFirmware False,
      ManifestState (MsgManifestFound ''Test'') True,
      PreparingState MsgPreparing False,
      ErrorState (MsgError (DownloadError ''a.bin'' 404)) FAILED_FIRMWARE_DOWNLOAD
        (DetailsError (DownloadError ''a.bin'' 404))] \<and>
   last (fst (flash
     (test_env\<lparr>fetchPart := (\<lambda>url. Inr \<lparr>ok = False, status = 404, arrayBuffer = Inr []\<rparr>)\<rparr>)
     ''manifest.json'' True)) = Device Disconnect"
  using failed_download_reported
    [of "test_env\<lparr>fetchPart := (\<lambda>url. Inr \<lparr>ok = False, status = 404, arrayBuffer = Inr []\<rparr>)\<rparr>"
        "''manifest.json''" "''http://host/manifest.json''" test_manifest
        "\<lparr>chipFamily = ''ESP32'', improv = False, parts = [\<lparr>path = ''a.bin'', offset = 0\<rparr>]\<rparr>"
        "[]" "\<lparr>path = ''a.bin'', offset = 0\<rparr>" "[]" "''http://host/a.bin''"
        "\<lparr>ok = False, status = 404, arrayBuffer = Inr []\<rparr>" True]
  by (simp add: test_env_def test_manifest_def select_build_def)

section \<open>The writing state with percentage 100\<close>

lemma states_loop_events:
  "\<forall>e\<in>set evs. loop_event man bld chip e \<Longrightarrow>
   \<forall>s\<in>set (map stateUpdate (emitted evs)). progress_state s"
proof (induction evs rule: emitted.induct)
  case 1
  then show ?case by simp
next
  case (2 d evs)
  then show ?case by simp
next
  case (3 err evs)
  then show ?case by simp
next
  case (4 c evs)
  then show ?case by simp
qed

lemma successful_run_states:
  assumes "resolveURL env manifestPath (location env) = Inr manifestURL"
    and "connect env = None"
    and "esp_initialize env = None"
    and "fetchManifest env manifestURL = Inr man"
    and "select_build man (getChipFamilyName env) = Some b"
    and "esp_runStub env = None"
    and "await_files (map (download env manifestURL) (parts b)) [] 0 = Inr (files, totalSize)"
    and "eraseFirst \<longrightarrow> esp_eraseFlash env = None"
  shows "states (flash env manifestPath eraseFirst) =
      [InitializingState MsgInitializing False,
       InitializingState (MsgInitialized (getChipFamilyName env)) True,
       ManifestState MsgFindingFirmware False,
       ManifestState (MsgManifestFound (name man)) True,
       PreparingState MsgPreparing False,
       PreparingState MsgPrepared True] @
      (if eraseFirst then [ErasingState MsgErasing False, ErasingState MsgErased True] else []) @
      states (writing env (fireStateEvent (Some man) (Some b) (Some (getChipFamilyName env)))
                b files totalSize)"
  using assms
  by (simp add: flash_def initializing_def resolving_def preparing_def erasing_def states_def Let_def)

lemma count_progress:
  "\<forall>s\<in>set progress. progress_state s \<Longrightarrow>
   length (filter (\<lambda>s. s = Writing pct) (map shape_of progress)) =
   length (filter (progress_to pct) progress)"
  by (induction progress) (auto simp: progress_to_def)

lemma progress_not_final: "progress_state s \<Longrightarrow> \<not> final_writing s"
  by (cases s rule: progress_state.cases) simp_all

text \<open>
  C3, as the code has it. The claim is that a successful run fires the writing state
  with percentage 100 exactly once, also when the last call of the progress callback
  computed 100. In the test environment the last call of the callback reports all 1000
  bytes: the callback computes 100, which differs from the last percentage, and fires
  a writing state with percentage 100 (lines 188 to 200); lines 217 to 225 then fire
  another. The successful run has two writing states with percentage 100.
\<close>

theorem writing_100_emitted_twice:
  "last (shapes (flash test_env ''manifest.json'' True)) = Finished \<and>
   filter (\<lambda>s. shape_of s = Writing (Finite 100)) (states (flash test_env ''manifest.json'' True)) =
     [WritingState (MsgWriteProgress (Finite 100)) 1000 1000 (Finite 100),
      WritingState MsgWriteDone 1000 1000 (Finite 100)]"
  by (simp add: test_run_shapes test_run_states)


text \<open>
  C3, amended. In every successful run (one in which every collaborator succeeds) the
  writing state that lines 217 to 225 fire (percentage 100, with the message of
  completion, and \<^verbatim>\<open>bytesWritten\<close> equal to \<^verbatim>\<open>bytesTotal\<close>) is fired exactly once, as the
  state right before the finished state, whatever the callback computed. The callback
  fires a writing state with percentage 100 of its own whenever it computes 100 and the
  last percentage was another: the run has one writing state with percentage 100 more
  than it has progress states with percentage 100.
\<close>

theorem final_writing_state_once:
  assumes "resolveURL env manifestPath (location env) = Inr manifestURL"
    and "connect env = None"
    and "esp_initialize env = None"
    and "fetchManifest env manifestURL = Inr man"
    and "select_build man (getChipFamilyName env) = Some b"
    and "esp_runStub env = None"
    and "await_files (map (download env manifestURL) (parts b)) [] 0 = Inr (files, totalSize)"
    and "eraseFirst \<longrightarrow> esp_eraseFlash env = None"
    and "\<forall>i<length (parts b). snd (esp_flashData env i (files ! i) (offset (parts b ! i))) = None"
    and "esp_hardReset env = None"
    and "esp_disconnect env = None"
  shows "\<exists>before.
    states (flash env manifestPath eraseFirst) =
      before @ [WritingState MsgWriteDone totalSize totalSize (Finite 100),
                FinishedState MsgFinished] \<and>
    (\<forall>s\<in>set before. \<not> final_writing s) \<and>
    length (filter (\<lambda>s. s = Writing (Finite 100)) (shapes (flash env manifestPath eraseFirst))) =
      1 + length (filter (progress_to (Finite 100)) (states (flash env manifestPath eraseFirst)))"
proof -
  let ?F = "fireStateEvent (Some man) (Some b) (Some (getChipFamilyName env))"
  let ?early = "[InitializingState MsgInitializing False,
       InitializingState (MsgInitialized (getChipFamilyName env)) True,
       ManifestState MsgFindingFirmware False,
       ManifestState (MsgManifestFound (name man)) True,
       PreparingState MsgPreparing False,
       PreparingState MsgPrepared True] @
      (if eraseFirst then [ErasingState MsgErasing False, ErasingState MsgErased True] else [])"
  have len: "length files = length (parts b)"
    using await_files_length [OF assms(7)] by simp
  have total: "sum_list (map length files) = totalSize"
    using await_files_total [of "map (download env manifestURL) (parts b)" "[]" files totalSize]
      assms(7) by simp
  from writing_succeeds [OF len assms(9-11), of "Some man" "Some b" "Some (getChipFamilyName env)" totalSize]
  obtain evs where
    w: "writing env ?F b files totalSize =
      (?F (WritingState (MsgWriteStart (Finite 0)) totalSize 0 (Finite 0)) # evs @
       [?F (WritingState MsgWriteDone totalSize (sum_list (map length files)) (Finite 100)),
        Device HardReset, Device Disconnect, ?F (FinishedState MsgFinished)], Resolved)"
    and l: "\<forall>e\<in>set evs. loop_event (Some man) (Some b) (Some (getChipFamilyName env)) e"
    by blast
  define progress where "progress = map stateUpdate (emitted evs)"
  have p: "\<forall>s\<in>set progress. progress_state s"
    unfolding progress_def using l by (rule states_loop_events)
  have sw: "states (writing env ?F b files totalSize) =
      WritingState (MsgWriteStart (Finite 0)) totalSize 0 (Finite 0) # progress @
      [WritingState MsgWriteDone totalSize totalSize (Finite 100), FinishedState MsgFinished]"
    unfolding w progress_def using total by (simp add: states_def)
  let ?before = "?early @ WritingState (MsgWriteStart (Finite 0)) totalSize 0 (Finite 0) # progress"
  have st: "states (flash env manifestPath eraseFirst) =
      ?before @ [WritingState MsgWriteDone totalSize totalSize (Finite 100), FinishedState MsgFinished]"
    using successful_run_states [OF assms(1-8)] sw by simp
  have nf: "\<forall>s\<in>set ?before. \<not> final_writing s"
    using p progress_not_final by auto
  have "length (filter (\<lambda>s. s = Writing (Finite 100)) (shapes (flash env manifestPath eraseFirst))) =
      1 + length (filter (progress_to (Finite 100)) (states (flash env manifestPath eraseFirst)))"
    unfolding shapes_def st using count_progress [OF p, of "Finite 100"]
    by (simp add: progress_to_def)
  with st nf show ?thesis by blast
qed

theorem final_writing_state_once_witness:
  "(\<exists>before.
    states (flash test_env ''manifest.json'' False) =
      before @ [WritingState MsgWriteDone 1000 1000 (Finite 100), FinishedState MsgFinished] \<and>
    list_all (\<lambda>s. \<not> final_writing s) before \<and>
    length (filter (\<lambda>s. s = Writing (Finite 100)) (shapes (flash test_env ''manifest.json'' False))) =
      1 + length (filter (progress_to (Finite 100)) (states (flash test_env ''manifest.json'' False)))) \<and>
   (\<exists>before.
    states (flash test_env ''manifest.json'' True) =
      before @ [WritingState MsgWriteDone 1000 1000 (Finite 100), FinishedState MsgFinished] \<and>
    list_all (\<lambda>s. \<not> final_writing s) before \<and>
    length (filter (\<lambda>s. s = Writing (Finite 100)) (shapes (flash test_env ''manifest.json'' True))) =
      1 + length (filter (progress_to (Finite 100)) (states (flash test_env ''manifest.json'' True))))"
  using final_writing_state_once
    [of test_env "''manifest.json''" "''http://host/manifest.json''" test_manifest
        "\<lparr>chipFamily = ''ESP32'', improv = False, parts = [\<lparr>path = ''a.bin'', offset = 0\<rparr>]\<rparr>"
        "[replicate 1000 0]" 1000 False]
    final_writing_state_once
    [of test_env "''manifest.json''" "''http://host/manifest.json''" test_manifest
        "\<lparr>chipFamily = ''ESP32'', improv = False, parts = [\<lparr>path = ''a.bin'', offset = 0\<rparr>]\<rparr>"
        "[replicate 1000 0]" 1000 True]
  by (simp add: test_env_def test_manifest_def select_build_def download_def list_all_iff)

section \<open>Rounding is monotone\<close>

text \<open>
  Rounding to the nearest binary64 value is monotone, and so are the rounded quotient,
  the rounded product and the floor: for a fixed total, the percentage does not
  decrease when the number of bytes written grows.
\<close>

lemma rne_nonneg: "0 \<le> n \<Longrightarrow> 0 < d \<Longrightarrow> 0 \<le> round_nearest_even n d"
  by (simp add: round_nearest_even_def Let_def pos_imp_zdiv_nonneg_iff)

lemma rne_exact: "0 < d \<Longrightarrow> round_nearest_even (k * d) d = k"
  by (simp add: round_nearest_even_def Let_def)

lemma rne_range:
  "round_nearest_even n d = n div d \<or> round_nearest_even n d = n div d + 1"
  by (simp add: round_nearest_even_def Let_def)

lemma div_mono_cross:
  fixes n d n' d' :: int
  assumes "0 < d" "0 < d'" "n * d' \<le> n' * d"
  shows "n div d \<le> n' div d'"
proof (rule ccontr)
  assume "\<not> n div d \<le> n' div d'"
  then have lt: "n' div d' + 1 \<le> n div d" by simp
  have "n' < (n' div d' + 1) * d'"
    using assms(2) by (metis add.commute div_mult_mod_eq distrib_right mult.commute mult_1 pos_mod_bound add_strict_left_mono)
  also have "\<dots> \<le> (n div d) * d'"
    using lt assms(2) by (simp add: mult_right_mono)
  finally have "n' * d < (n div d) * d' * d"
    using assms(1) by (simp add: mult_strict_right_mono)
  moreover have "(n div d) * d \<le> n"
    using assms(1) by (metis div_mult_mod_eq le_add_same_cancel1 mult.commute pos_mod_sign add.commute)
  then have "(n div d) * d * d' \<le> n * d'"
    using assms(2) by (simp add: mult_right_mono)
  ultimately show False using assms(3) by (simp add: mult.commute mult.left_commute)
qed

lemma mod_cross:
  fixes n d n' d' :: int
  assumes "0 < d" "0 < d'" "n * d' \<le> n' * d" "n div d = n' div d'"
  shows "(n mod d) * d' \<le> (n' mod d') * d"
proof -
  define f r r' where "f = n div d" and "r = n mod d" and "r' = n' mod d'"
  have n: "n = f * d + r" by (simp add: f_def r_def)
  have n': "n' = f * d' + r'" using assms(4) by (simp add: f_def r'_def)
  have "(f * d + r) * d' \<le> (f * d' + r') * d"
    using assms(3) unfolding n n' .
  then have "r * d' \<le> r' * d" by (simp add: algebra_simps)
  then show ?thesis by (simp add: r_def r'_def)
qed

lemma rne_mono:
  fixes n d n' d' :: int
  assumes d: "0 < d" and d': "0 < d'" and le: "n * d' \<le> n' * d"
  shows "round_nearest_even n d \<le> round_nearest_even n' d'"
proof -
  have fle: "n div d \<le> n' div d'" using d d' le by (rule div_mono_cross)
  show ?thesis
  proof (cases "n div d = n' div d'")
    case False
    with fle have "n div d + 1 \<le> n' div d'" by simp
    moreover have "round_nearest_even n d \<le> n div d + 1"
      using rne_range [of n d] by auto
    moreover have "n' div d' \<le> round_nearest_even n' d'"
      using rne_range [of n' d'] by auto
    ultimately show ?thesis by linarith
  next
    case True
    have rr: "(n mod d) * d' \<le> (n' mod d') * d"
      using d d' le True by (rule mod_cross)
    have a: "d < 2 * (n mod d) \<Longrightarrow> d' < 2 * (n' mod d')"
    proof -
      assume "d < 2 * (n mod d)"
      then have "d * d' < 2 * (n mod d) * d'" using d' by (simp add: mult_strict_right_mono)
      also have "\<dots> \<le> 2 * (n' mod d') * d" using rr by simp
      finally have "d' * d < (2 * (n' mod d')) * d" by (simp add: mult.commute)
      then show ?thesis using d by (simp only: mult_less_cancel_right_pos)
    qed
    have b: "d \<le> 2 * (n mod d) \<Longrightarrow> d' \<le> 2 * (n' mod d')"
    proof -
      assume "d \<le> 2 * (n mod d)"
      then have "d * d' \<le> 2 * (n mod d) * d'" using d' by (simp add: mult_right_mono)
      also have "\<dots> \<le> 2 * (n' mod d') * d" using rr by simp
      finally have "d' * d \<le> (2 * (n' mod d')) * d" by (simp add: mult.commute)
      then show ?thesis using d by (simp only: mult_le_cancel_right_pos)
    qed
    from a b True show ?thesis
      by (auto simp: round_nearest_even_def Let_def)
  qed
qed

lemma rne_lower:
  fixes n d L :: int
  assumes "0 < d" "L * d \<le> n"
  shows "L \<le> round_nearest_even n d"
proof -
  have "round_nearest_even (L * d) d \<le> round_nearest_even n d"
    using assms by (intro rne_mono) (simp_all add: mult_right_mono)
  then show ?thesis using assms(1) by (simp add: rne_exact)
qed

lemma rne_upper:
  fixes n d U :: int
  assumes "0 < d" "n \<le> U * d"
  shows "round_nearest_even n d \<le> U"
proof -
  have "round_nearest_even n d \<le> round_nearest_even (U * d) d"
    using assms by (intro rne_mono) (simp_all add: mult_right_mono)
  then show ?thesis using assms(1) by (simp add: rne_exact)
qed

lemma bitlen_powi_bounds:
  assumes "0 < p"
  shows "2 powi (bitlen p - 1) \<le> real_of_int p" and "real_of_int p < 2 powi bitlen p"
proof -
  from assms have b1: "1 \<le> bitlen p" by (auto simp: bitlen_alt_def)
  from bitlen_bounds [OF assms] have lo: "2 ^ nat (bitlen p - 1) \<le> p" and hi: "p < 2 ^ nat (bitlen p)"
    by simp_all
  have "2 powi (bitlen p - 1) = (2::real) ^ nat (bitlen p - 1)"
    using b1 by (simp add: power_int_def)
  also have "\<dots> = real_of_int (2 ^ nat (bitlen p - 1))" by simp
  also have "\<dots> \<le> real_of_int p" using lo by (simp only: of_int_le_iff)
  finally show "2 powi (bitlen p - 1) \<le> real_of_int p" .
  have "real_of_int p < real_of_int (2 ^ nat (bitlen p))" using hi by (simp only: of_int_less_iff)
  also have "\<dots> = (2::real) ^ nat (bitlen p)" by simp
  also have "\<dots> = 2 powi bitlen p" using b1 by (simp add: power_int_def)
  finally show "real_of_int p < 2 powi bitlen p" .
qed

lemma binade_test:
  fixes p q k :: int
  assumes "0 < q"
  shows "(if 0 \<le> k then 2 ^ nat k * q \<le> p else q \<le> 2 ^ nat (- k) * p) \<longleftrightarrow>
         2 powi k * real_of_int q \<le> real_of_int p"
proof (cases "0 \<le> k")
  case True
  have "2 powi k * real_of_int q = real_of_int (2 ^ nat k * q)"
    using True by (simp add: power_int_def)
  then show ?thesis using True by (simp only: of_int_le_iff if_True)
next
  case False
  have "2 powi k * real_of_int q \<le> real_of_int p \<longleftrightarrow>
        real_of_int q \<le> 2 ^ nat (- k) * real_of_int p"
    using False by (simp add: power_int_def field_simps)
  also have "\<dots> \<longleftrightarrow> real_of_int q \<le> real_of_int (2 ^ nat (- k) * p)" by simp
  also have "\<dots> \<longleftrightarrow> q \<le> 2 ^ nat (- k) * p" by (simp only: of_int_le_iff)
  finally show ?thesis using False by simp
qed

lemma binade_bounds:
  assumes p: "0 < p" and q: "0 < q"
  shows "2 powi binade p q * real_of_int q \<le> real_of_int p"
    and "real_of_int p < 2 powi (binade p q + 1) * real_of_int q"
proof -
  define k where "k = bitlen p - bitlen q"
  note bp = bitlen_powi_bounds [OF p] and bq = bitlen_powi_bounds [OF q]
  have rq: "0 < real_of_int q" using q by simp
  have split: "(2::real) powi bitlen p = 2 powi (k + 1) * 2 powi (bitlen q - 1)"
    by (simp add: k_def flip: power_int_add)
  have split': "(2::real) powi (bitlen p - 1) = 2 powi (k - 1) * 2 powi bitlen q"
    by (simp add: k_def flip: power_int_add)
  have up: "real_of_int p < 2 powi (k + 1) * real_of_int q"
  proof -
    have "real_of_int p < 2 powi (k + 1) * 2 powi (bitlen q - 1)" using bp(2) split by simp
    also have "\<dots> \<le> 2 powi (k + 1) * real_of_int q"
      using bq(1) by (intro mult_left_mono) simp_all
    finally show ?thesis .
  qed
  have lo: "2 powi (k - 1) * real_of_int q \<le> real_of_int p"
  proof -
    have "2 powi (k - 1) * real_of_int q \<le> 2 powi (k - 1) * 2 powi bitlen q"
      using bq(2) by (intro mult_left_mono) simp_all
    also have "\<dots> \<le> real_of_int p" using bp(1) split' by simp
    finally show ?thesis .
  qed
  have bin: "binade p q = (if 2 powi k * real_of_int q \<le> real_of_int p then k else k - 1)"
    unfolding binade_def Let_def k_def [symmetric] binade_test [OF q] ..
  show "2 powi binade p q * real_of_int q \<le> real_of_int p"
    using lo by (simp add: bin)
  show "real_of_int p < 2 powi (binade p q + 1) * real_of_int q"
    using up by (auto simp: bin)
qed

lemma round_to_double_scaled:
  "p \<noteq> 0 \<Longrightarrow>
   round_to_double p q =
     Double (round_nearest_even (fst (scaled p q (binade p q - 52)))
               (snd (scaled p q (binade p q - 52))))
       (binade p q - 52)"
  by (simp add: round_to_double_def scaled_def Let_def)

lemma scaled_pos: "0 < q \<Longrightarrow> 0 < snd (scaled p q e)"
  by (simp add: scaled_def)

lemma scaled_nonneg: "0 \<le> p \<Longrightarrow> 0 \<le> fst (scaled p q e)"
  by (simp add: scaled_def)

lemma scaled_cross:
  fixes p q p' q' :: int
  assumes "p * q' \<le> p' * q"
  shows "fst (scaled p q e) * snd (scaled p' q' e) \<le> fst (scaled p' q' e) * snd (scaled p q e)"
proof (cases "0 \<le> e")
  case True
  have "p * (2 ^ nat e * q') = 2 ^ nat e * (p * q')" by simp
  also have "\<dots> \<le> 2 ^ nat e * (p' * q)" using assms by (intro mult_left_mono) simp_all
  also have "\<dots> = p' * (2 ^ nat e * q)" by simp
  finally show ?thesis using True by (simp add: scaled_def)
next
  case False
  have "2 ^ nat (- e) * p * q' = 2 ^ nat (- e) * (p * q')" by simp
  also have "\<dots> \<le> 2 ^ nat (- e) * (p' * q)" using assms by (intro mult_left_mono) simp_all
  also have "\<dots> = 2 ^ nat (- e) * p' * q" by simp
  finally show ?thesis using False by (simp add: scaled_def)
qed

lemma powi_add_52: "(2::real) powi (e + 52) = 2 powi e * 2 ^ 52"
proof -
  have "(2::real) powi (e + 52) = 2 powi e * 2 powi 52" by (rule power_int_add) simp
  then show ?thesis by simp
qed

lemma powi_add_53: "(2::real) powi (e + 53) = 2 powi e * 2 ^ 53"
proof -
  have "(2::real) powi (e + 53) = 2 powi e * 2 powi 53" by (rule power_int_add) simp
  then show ?thesis by simp
qed

lemma powi_nonneg_exp: "0 \<le> e \<Longrightarrow> (2::real) powi e = 2 ^ nat e"
  by (simp add: power_int_def)

lemma powi_neg_exp: "e < 0 \<Longrightarrow> 2 ^ nat (- e) * (2::real) powi e = 1"
  by (simp add: power_int_def field_simps)

lemma scaled_lower:
  assumes "0 < q" and "2 powi (e + 52) * real_of_int q \<le> real_of_int p"
  shows "2 ^ 52 * snd (scaled p q e) \<le> fst (scaled p q e)"
proof (cases "0 \<le> e")
  case True
  have "real_of_int (2 ^ 52 * (2 ^ nat e * q)) = 2 powi (e + 52) * real_of_int q"
    using True by (simp add: powi_add_52 powi_nonneg_exp)
  also have "\<dots> \<le> real_of_int p" by (rule assms(2))
  finally have "2 ^ 52 * (2 ^ nat e * q) \<le> p" by (simp only: of_int_le_iff)
  then show ?thesis using True by (simp add: scaled_def)
next
  case False
  have "real_of_int (2 ^ 52 * q) = (2 ^ nat (- e) * 2 powi e) * (2 ^ 52 * real_of_int q)"
    using False by (simp only: powi_neg_exp) simp
  also have "\<dots> = 2 ^ nat (- e) * (2 powi (e + 52) * real_of_int q)"
    by (simp only: powi_add_52 mult.assoc)
  also have "\<dots> \<le> 2 ^ nat (- e) * real_of_int p"
    using assms(2) by (intro mult_left_mono) simp_all
  also have "\<dots> = real_of_int (2 ^ nat (- e) * p)" by simp
  finally have "2 ^ 52 * q \<le> 2 ^ nat (- e) * p" by (simp only: of_int_le_iff)
  then show ?thesis using False by (simp add: scaled_def)
qed

lemma scaled_upper:
  assumes "0 < q" and "real_of_int p \<le> 2 powi (e + 53) * real_of_int q"
  shows "fst (scaled p q e) \<le> 2 ^ 53 * snd (scaled p q e)"
proof (cases "0 \<le> e")
  case True
  have "real_of_int p \<le> 2 powi (e + 53) * real_of_int q" by (rule assms(2))
  also have "\<dots> = real_of_int (2 ^ 53 * (2 ^ nat e * q))"
    using True by (simp add: powi_add_53 powi_nonneg_exp)
  finally have "p \<le> 2 ^ 53 * (2 ^ nat e * q)" by (simp only: of_int_le_iff)
  then show ?thesis using True by (simp add: scaled_def)
next
  case False
  have "real_of_int (2 ^ nat (- e) * p) = 2 ^ nat (- e) * real_of_int p" by simp
  also have "\<dots> \<le> 2 ^ nat (- e) * (2 powi (e + 53) * real_of_int q)"
    using assms(2) by (intro mult_left_mono) simp_all
  also have "\<dots> = (2 ^ nat (- e) * 2 powi e) * (2 ^ 53 * real_of_int q)"
    by (simp only: powi_add_53 mult.assoc)
  also have "\<dots> = real_of_int (2 ^ 53 * q)"
    using False by (simp only: powi_neg_exp) simp
  finally have "2 ^ nat (- e) * p \<le> 2 ^ 53 * q" by (simp only: of_int_le_iff)
  then show ?thesis using False by (simp add: scaled_def)
qed

lemma significand_bounds:
  assumes p: "0 < p" and q: "0 < q"
  shows "2 ^ 52 \<le> significand (round_to_double p q)"
    and "significand (round_to_double p q) \<le> 2 ^ 53"
proof -
  let ?e = "binade p q - 52"
  have lo: "2 powi (?e + 52) * real_of_int q \<le> real_of_int p"
    using binade_bounds(1) [OF p q] by simp
  have hi: "real_of_int p \<le> 2 powi (?e + 53) * real_of_int q"
    using binade_bounds(2) [OF p q] by (simp add: add.commute)
  have pn: "p \<noteq> 0" using p by simp
  show "2 ^ 52 \<le> significand (round_to_double p q)"
    unfolding round_to_double_scaled [OF pn] double.sel
    using scaled_pos [OF q] scaled_lower [OF q lo] by (intro rne_lower) (simp_all add: mult.commute)
  show "significand (round_to_double p q) \<le> 2 ^ 53"
    unfolding round_to_double_scaled [OF pn] double.sel
    using scaled_pos [OF q] scaled_upper [OF q hi] by (intro rne_upper) (simp_all add: mult.commute)
qed

lemma powi_step: "2 ^ 53 * (2::real) powi e = 2 ^ 52 * 2 powi (e + 1)"
  by (simp add: power_int_add)

lemma binade_mono:
  fixes p q p' q' :: int
  assumes p: "0 < p" and q: "0 < q" and p': "0 < p'" and q': "0 < q'"
    and le: "p * q' \<le> p' * q"
  shows "binade p q \<le> binade p' q'"
proof (rule ccontr)
  assume "\<not> binade p q \<le> binade p' q'"
  then have "binade p' q' + 1 \<le> binade p q" by simp
  then have pw: "(2::real) powi (binade p' q' + 1) \<le> 2 powi binade p q"
    by (intro power_int_increasing) simp_all
  have rq: "0 < real_of_int q" and rq': "0 < real_of_int q'" using q q' by simp_all
  have "real_of_int p' * real_of_int q < 2 powi (binade p' q' + 1) * real_of_int q' * real_of_int q"
    using binade_bounds(2) [OF p' q'] rq by (simp add: mult_strict_right_mono)
  also have "\<dots> \<le> 2 powi binade p q * real_of_int q' * real_of_int q"
    using pw rq rq' by (intro mult_right_mono) simp_all
  also have "\<dots> = (2 powi binade p q * real_of_int q) * real_of_int q'" by simp
  also have "\<dots> \<le> real_of_int p * real_of_int q'"
    using binade_bounds(1) [OF p q] rq' by (intro mult_right_mono) simp_all
  finally have "real_of_int (p' * q) < real_of_int (p * q')" by simp
  then have "p' * q < p * q'" by (simp only: of_int_less_iff)
  with le show False by simp
qed

lemma dval_round_pos:
  assumes "0 < p" "0 < q"
  shows "2 ^ 52 * 2 powi (binade p q - 52) \<le> dval (round_to_double p q)"
    and "dval (round_to_double p q) \<le> 2 ^ 53 * 2 powi (binade p q - 52)"
proof -
  have e: "exponent (round_to_double p q) = binade p q - 52"
    using assms(1) by (simp add: round_to_double_scaled)
  have "real_of_int (2 ^ 52) \<le> real_of_int (significand (round_to_double p q))"
    using significand_bounds(1) [OF assms] by (simp only: of_int_le_iff)
  then show "2 ^ 52 * 2 powi (binade p q - 52) \<le> dval (round_to_double p q)"
    unfolding dval_def e by (intro mult_right_mono) simp_all
  have "real_of_int (significand (round_to_double p q)) \<le> real_of_int (2 ^ 53)"
    using significand_bounds(2) [OF assms] by (simp only: of_int_le_iff)
  then show "dval (round_to_double p q) \<le> 2 ^ 53 * 2 powi (binade p q - 52)"
    unfolding dval_def e by (intro mult_right_mono) simp_all
qed

lemma dval_round_nonneg:
  assumes "0 \<le> p" "0 < q"
  shows "0 \<le> dval (round_to_double p q)"
proof (cases "p = 0")
  case True
  then show ?thesis by (simp add: round_to_double_def dval_def)
next
  case False
  with assms have "0 < p" by simp
  from dval_round_pos(1) [OF this assms(2)] show ?thesis
    by (rule order_trans [rotated]) simp
qed

lemma round_to_double_mono_pos:
  fixes p q p' q' :: int
  assumes p: "0 < p" and q: "0 < q" and p': "0 < p'" and q': "0 < q'"
    and le: "p * q' \<le> p' * q"
  shows "dval (round_to_double p q) \<le> dval (round_to_double p' q')"
proof -
  have b: "binade p q \<le> binade p' q'" using assms by (rule binade_mono)
  show ?thesis
  proof (cases "binade p q = binade p' q'")
    case True
    let ?e = "binade p q - 52"
    have "round_nearest_even (fst (scaled p q ?e)) (snd (scaled p q ?e)) \<le>
          round_nearest_even (fst (scaled p' q' ?e)) (snd (scaled p' q' ?e))"
      using scaled_pos [OF q] scaled_pos [OF q'] scaled_cross [OF le]
      by (intro rne_mono)
    then have "real_of_int (round_nearest_even (fst (scaled p q ?e)) (snd (scaled p q ?e))) \<le>
          real_of_int (round_nearest_even (fst (scaled p' q' ?e)) (snd (scaled p' q' ?e)))"
      by (simp only: of_int_le_iff)
    then show ?thesis
      using p p' True
      by (simp add: round_to_double_scaled dval_def mult_right_mono)
  next
    case False
    with b have lt: "binade p q - 52 + 1 \<le> binade p' q' - 52" by simp
    have "dval (round_to_double p q) \<le> 2 ^ 53 * 2 powi (binade p q - 52)"
      using p q by (rule dval_round_pos(2))
    also have "\<dots> = 2 ^ 52 * (2::real) powi (binade p q - 52 + 1)"
      by (rule powi_step)
    also have "\<dots> \<le> 2 ^ 52 * 2 powi (binade p' q' - 52)"
      using lt by (intro mult_left_mono power_int_increasing) simp_all
    also have "\<dots> \<le> dval (round_to_double p' q')"
      using p' q' by (rule dval_round_pos(1))
    finally show ?thesis .
  qed
qed

lemma round_to_double_mono:
  fixes p q p' q' :: int
  assumes p: "0 \<le> p" and q: "0 < q" and q': "0 < q'" and le: "p * q' \<le> p' * q"
  shows "dval (round_to_double p q) \<le> dval (round_to_double p' q')"
proof (cases "p = 0")
  case True
  have "0 \<le> p' * q" using le True by simp
  with q have "0 \<le> p'" by (simp add: zero_le_mult_iff)
  from dval_round_nonneg [OF this q'] True show ?thesis
    by (simp add: round_to_double_def dval_def)
next
  case False
  with p have pp: "0 < p" by simp
  with q' have "0 < p * q'" by simp
  with le have "0 < p' * q" by simp
  with q have "0 < p'" by (simp add: zero_less_mult_iff)
  with pp q q' le show ?thesis by (intro round_to_double_mono_pos)
qed

lemma double_mul_fraction:
  "double_mul x k = round_to_double (fst (mul_fraction x k)) (snd (mul_fraction x k))"
  by (simp add: double_mul_def mul_fraction_def)

lemma mul_fraction_pos: "0 < snd (mul_fraction x k)"
  by (simp add: mul_fraction_def)

lemma mul_fraction_real:
  "real_of_int (fst (mul_fraction x k)) =
   dval x * real_of_int k * real_of_int (snd (mul_fraction x k))"
proof (cases "0 \<le> exponent x")
  case True
  then show ?thesis by (simp add: mul_fraction_def dval_def powi_nonneg_exp)
next
  case False
  then have one: "2 ^ nat (- exponent x) * (2::real) powi exponent x = 1"
    by (intro powi_neg_exp) simp
  have "dval x * real_of_int k * real_of_int (2 ^ nat (- exponent x)) =
        real_of_int (significand x) * real_of_int k *
          (2 ^ nat (- exponent x) * 2 powi exponent x)"
    by (simp add: dval_def)
  also have "\<dots> = real_of_int (significand x * k)"
    by (simp only: one) simp
  finally have eq: "real_of_int (significand x * k) =
      dval x * real_of_int k * real_of_int (2 ^ nat (- exponent x))" ..
  from False have mf: "mul_fraction x k = (significand x * k, 2 ^ nat (- exponent x))"
    by (simp add: mul_fraction_def)
  show ?thesis unfolding mf fst_conv snd_conv by (rule eq)
qed

lemma double_mul_mono:
  assumes "0 \<le> dval x" "dval x \<le> dval y" "0 < k"
  shows "dval (double_mul x k) \<le> dval (double_mul y k)"
proof -
  let ?P = "fst (mul_fraction x k)" and ?Q = "snd (mul_fraction x k)"
  let ?P' = "fst (mul_fraction y k)" and ?Q' = "snd (mul_fraction y k)"
  have Q: "0 < ?Q" and Q': "0 < ?Q'" by (rule mul_fraction_pos)+
  have "0 \<le> dval x * real_of_int k * real_of_int ?Q"
    using assms(1,3) Q by simp
  then have "0 \<le> real_of_int ?P" by (simp only: mul_fraction_real)
  then have P: "0 \<le> ?P" by simp
  have "real_of_int ?P * real_of_int ?Q' =
        dval x * (real_of_int k * real_of_int ?Q * real_of_int ?Q')"
    by (simp add: mul_fraction_real [of x k])
  also have "\<dots> \<le> dval y * (real_of_int k * real_of_int ?Q * real_of_int ?Q')"
    using assms(2,3) Q Q' by (intro mult_right_mono) simp_all
  also have "\<dots> = real_of_int ?P' * real_of_int ?Q"
    by (simp add: mul_fraction_real [of y k])
  finally have "real_of_int (?P * ?Q') \<le> real_of_int (?P' * ?Q)" by simp
  then have "?P * ?Q' \<le> ?P' * ?Q" by (simp only: of_int_le_iff)
  with P Q Q' show ?thesis
    unfolding double_mul_fraction by (intro round_to_double_mono)
qed

lemma double_mul_nonneg:
  assumes "0 \<le> dval x" "0 < k"
  shows "0 \<le> dval (double_mul x k)"
proof -
  have "0 \<le> dval x * real_of_int k * real_of_int (snd (mul_fraction x k))"
    using assms mul_fraction_pos [of x k] by simp
  then have "0 \<le> real_of_int (fst (mul_fraction x k))" by (simp only: mul_fraction_real)
  then have "0 \<le> fst (mul_fraction x k)" by simp
  then show ?thesis
    unfolding double_mul_fraction using mul_fraction_pos by (rule dval_round_nonneg)
qed

lemma double_floor_dval: "double_floor x = \<lfloor>dval x\<rfloor>"
proof (cases "0 \<le> exponent x")
  case True
  have "dval x = real_of_int (significand x * 2 ^ nat (exponent x))"
    using True by (simp add: dval_def powi_nonneg_exp)
  then have "\<lfloor>dval x\<rfloor> = significand x * 2 ^ nat (exponent x)"
    by (simp only: floor_of_int)
  with True show ?thesis by (simp add: double_floor_def)
next
  case False
  then have "2 ^ nat (- exponent x) * (2::real) powi exponent x = 1"
    by (intro powi_neg_exp) simp
  then have "(2::real) powi exponent x = 1 / 2 ^ nat (- exponent x)"
    by (simp add: field_simps)
  then have "dval x = real_of_int (significand x) / real_of_int (2 ^ nat (- exponent x))"
    by (simp add: dval_def)
  then have "\<lfloor>dval x\<rfloor> = significand x div 2 ^ nat (- exponent x)"
    by (simp only: floor_divide_of_int_eq)
  with False show ?thesis by (simp add: double_floor_def)
qed

lemma percentage_of_Finite:
  "0 < t \<Longrightarrow> percentage_of w t =
     Finite \<lfloor>dval (double_mul (round_to_double (int w) (int t)) 100)\<rfloor>"
  by (simp add: percentage_of_def double_floor_dval)

lemma percentage_mono:
  assumes "0 < t" "w \<le> w'"
  shows "\<exists>k k'. percentage_of w t = Finite k \<and> percentage_of w' t = Finite k' \<and> 0 \<le> k \<and> k \<le> k'"
proof -
  have t: "0 < int t" using assms(1) by simp
  have "int w * int t \<le> int w' * int t" using assms(2) by (simp add: mult_right_mono)
  then have 1: "dval (round_to_double (int w) (int t)) \<le> dval (round_to_double (int w') (int t))"
    using t by (intro round_to_double_mono) simp_all
  have 0: "0 \<le> dval (round_to_double (int w) (int t))"
    using t by (intro dval_round_nonneg) simp_all
  from 0 1 have 2: "dval (double_mul (round_to_double (int w) (int t)) 100) \<le>
      dval (double_mul (round_to_double (int w') (int t)) 100)"
    by (intro double_mul_mono) simp_all
  from 0 have 3: "0 \<le> dval (double_mul (round_to_double (int w) (int t)) 100)"
    by (intro double_mul_nonneg) simp_all
  from 2 3 assms(1) show ?thesis
    by (simp add: percentage_of_Finite floor_mono)
qed

section \<open>The progress states\<close>

lemma strict_eq_percentage:
  "0 < t \<Longrightarrow> strict_eq (percentage_of w t) lastPct \<longleftrightarrow> percentage_of w t = lastPct"
  by (auto simp: strict_eq_def percentage_of_def)

lemma progress_spec_append:
  "progress_spec t lastPct (xs @ ys) =
   progress_spec t lastPct xs @ progress_spec t (final_pct t lastPct xs) ys"
  by (induction xs arbitrary: lastPct) (auto simp: final_pct_def)

lemma final_pct_append:
  "final_pct t (final_pct t lastPct xs) ys = final_pct t lastPct (xs @ ys)"
  by (simp add: final_pct_def)

lemma callbacks_spec:
  assumes "0 < t"
  shows "map stateUpdate (emitted (fst (callbacks (fireStateEvent man bld chip) t tw lastPct calls))) =
           map (progress_update t) (progress_spec t lastPct (map (\<lambda>b. tw + b) calls)) \<and>
         snd (callbacks (fireStateEvent man bld chip) t tw lastPct calls) =
           final_pct t lastPct (map (\<lambda>b. tw + b) calls)"
proof (induction calls arbitrary: lastPct)
  case Nil
  then show ?case by (simp add: final_pct_def)
next
  case (Cons b calls)
  show ?case
  proof (cases "percentage_of (tw + b) t = lastPct")
    case True
    have "strict_eq (percentage_of (tw + b) t) lastPct"
      using strict_eq_percentage [OF assms, of "tw + b" lastPct] True by blast
    then have op: "onProgress (fireStateEvent man bld chip) t tw lastPct b = ([], lastPct)"
      by (simp add: onProgress_def)
    obtain evs pct where cb:
      "callbacks (fireStateEvent man bld chip) t tw lastPct calls = (evs, pct)"
      by (cases "callbacks (fireStateEvent man bld chip) t tw lastPct calls")
    from Cons.IH [of lastPct] cb op True show ?thesis
      by (auto simp: final_pct_def)
  next
    case False
    have "\<not> strict_eq (percentage_of (tw + b) t) lastPct"
      using strict_eq_percentage [OF assms, of "tw + b" lastPct] False by blast
    then have op: "onProgress (fireStateEvent man bld chip) t tw lastPct b =
        ([fireStateEvent man bld chip (progress_update t (tw + b))], percentage_of (tw + b) t)"
      by (simp add: onProgress_def progress_update_def Let_def)
    obtain evs pct where cb:
      "callbacks (fireStateEvent man bld chip) t tw (percentage_of (tw + b) t) calls = (evs, pct)"
      by (cases "callbacks (fireStateEvent man bld chip) t tw (percentage_of (tw + b) t) calls")
    from Cons.IH [of "percentage_of (tw + b) t"] cb op False show ?thesis
      by (auto simp: final_pct_def)
  qed
qed


lemma progress_update_is_progress [simp]: "progress_state (progress_update t w)"
  by (simp add: progress_update_def)

lemma filter_progress_updates [simp]:
  "filter progress_state (map (progress_update t) ws) = map (progress_update t) ws"
  by (induction ws) simp_all

lemma write_parts_spec:
  assumes "0 < t"
  shows "filter progress_state (map stateUpdate (emitted (fst
           (write_parts env (fireStateEvent man bld chip) t i ps files tw lastPct)))) =
         map (progress_update t) (progress_spec t lastPct (cumulative env i ps files tw))"
proof (induction ps arbitrary: i files tw lastPct)
  case Nil
  then show ?case by simp
next
  case (Cons p ps)
  show ?case
  proof (cases files)
    case Nil
    then show ?thesis by simp
  next
    case (Cons f fs)
    obtain calls result where fd: "esp_flashData env i f (offset p) = (calls, result)"
      by (cases "esp_flashData env i f (offset p)")
    obtain progress lastPct' where cb:
      "callbacks (fireStateEvent man bld chip) t tw lastPct calls = (progress, lastPct')"
      by (cases "callbacks (fireStateEvent man bld chip) t tw lastPct calls")
    from callbacks_spec [OF assms, of man bld chip tw lastPct calls] cb
    have pr: "map stateUpdate (emitted progress) =
        map (progress_update t) (progress_spec t lastPct (map (\<lambda>b. tw + b) calls))"
      and lp: "lastPct' = final_pct t lastPct (map (\<lambda>b. tw + b) calls)"
      by simp_all
    show ?thesis
    proof (cases result)
      case (Some err)
      with Cons fd cb pr show ?thesis by simp
    next
      case None
      obtain evs2 r where rec:
        "write_parts env (fireStateEvent man bld chip) t (Suc i) ps fs (tw + length f) lastPct' =
           (evs2, r)"
        by (cases "write_parts env (fireStateEvent man bld chip) t (Suc i) ps fs
                     (tw + length f) lastPct'")
      from Cons.IH [of "Suc i" fs "tw + length f" lastPct'] rec
      have "filter progress_state (map stateUpdate (emitted evs2)) =
          map (progress_update t)
            (progress_spec t lastPct' (cumulative env (Suc i) ps fs (tw + length f)))"
        by simp
      with Cons fd cb pr lp None rec show ?thesis
        by (simp add: progress_spec_append)
    qed
  qed
qed

lemma finishing_no_progress:
  "filter progress_state (states (finishing env (fireStateEvent man bld chip))) = []"
  by (simp add: finishing_def states_def split: option.splits)

lemma writing_progress:
  assumes "0 < t"
  shows "filter progress_state (states (writing env (fireStateEvent man bld chip) b files t)) =
         map (progress_update t) (progress_spec t (Finite 0) (cumulative env 0 (parts b) files 0))"
proof -
  obtain evs r where wp:
    "write_parts env (fireStateEvent man bld chip) t 0 (parts b) files 0 (Finite 0) = (evs, r)"
    by (cases "write_parts env (fireStateEvent man bld chip) t 0 (parts b) files 0 (Finite 0)")
  from write_parts_spec [OF assms, of env man bld chip 0 "parts b" files 0 "Finite 0"] wp
  have sp: "filter progress_state (map stateUpdate (emitted evs)) =
      map (progress_update t) (progress_spec t (Finite 0) (cumulative env 0 (parts b) files 0))"
    by simp
  show ?thesis
  proof (cases r)
    case (Continue n)
    have "states (writing env (fireStateEvent man bld chip) b files t) =
        WritingState (MsgWriteStart (Finite 0)) t 0 (Finite 0) # map stateUpdate (emitted evs) @
        WritingState MsgWriteDone t n (Finite 100) #
        states (finishing env (fireStateEvent man bld chip))"
      using wp Continue by (simp add: writing_def states_def)
    with sp show ?thesis by (simp add: finishing_no_progress)
  next
    case (Stop out)
    have "states (writing env (fireStateEvent man bld chip) b files t) =
        WritingState (MsgWriteStart (Finite 0)) t 0 (Finite 0) # map stateUpdate (emitted evs)"
      using wp Stop by (simp add: writing_def states_def)
    with sp show ?thesis by simp
  qed
qed

lemma percentage_of_zero: "0 < t \<Longrightarrow> percentage_of 0 t = Finite 0"
  by (simp add: percentage_of_def round_to_double_def double_mul_def double_floor_def)

lemma progress_spec_increasing:
  assumes "0 < t"
  shows "sorted (w0 # ws) \<Longrightarrow> percentage_of w0 t = Finite k0 \<Longrightarrow>
    \<exists>ks. map (\<lambda>w. percentage_of w t) (progress_spec t (Finite k0) ws) = map Finite ks \<and>
         sorted_wrt (<) (k0 # ks)"
proof (induction ws arbitrary: w0 k0)
  case Nil
  have "map (\<lambda>w. percentage_of w t) (progress_spec t (Finite k0) []) = map Finite [] \<and>
        sorted_wrt (<) (k0 # [])"
    by simp
  then show ?case by blast
next
  case (Cons w ws)
  from Cons.prems(1) have le: "w0 \<le> w" and so: "sorted (w # ws)" by simp_all
  from percentage_mono [OF assms le] Cons.prems(2) obtain k where
    k: "percentage_of w t = Finite k" and kk: "k0 \<le> k"
    by auto
  show ?case
  proof (cases "k = k0")
    case True
    with k have pk: "percentage_of w t = Finite k0" by simp
    from Cons.IH [OF so pk] pk show ?thesis by simp
  next
    case False
    with kk have lt: "k0 < k" by simp
    from Cons.IH [OF so k] obtain ks where
      m: "map (\<lambda>w. percentage_of w t) (progress_spec t (Finite k) ws) = map Finite ks"
      and s: "sorted_wrt (<) (k # ks)"
      by blast
    have "map (\<lambda>w. percentage_of w t) (progress_spec t (Finite k0) (w # ws)) = map Finite (k # ks)"
      using k False m by simp
    moreover have "sorted_wrt (<) (k0 # k # ks)"
      using s lt by auto
    ultimately show ?thesis by blast
  qed
qed

lemma progress_is_writing: "progress_state s \<Longrightarrow> writing_state s"
  by (cases s rule: progress_state.cases) simp_all

lemma loop_events_states:
  assumes "\<forall>e\<in>set evs. loop_event man bld chip e"
  shows "filter writing_state (map stateUpdate (emitted evs)) = map stateUpdate (emitted evs)"
    and "filter progress_state (map stateUpdate (emitted evs)) = map stateUpdate (emitted evs)"
  using states_loop_events [OF assms] progress_is_writing by (auto simp: filter_id_conv simp del: set_map)

lemma finishing_no_writing:
  "filter writing_state (states (finishing env (fireStateEvent man bld chip))) = []"
  by (simp add: finishing_def states_def split: option.splits)

lemma writing_states_of_writing:
  assumes "0 < t" and "length files = length (parts b)"
  shows "filter writing_state (states (writing env (fireStateEvent man bld chip) b files t)) =
     WritingState (MsgWriteStart (Finite 0)) t 0 (Finite 0) #
     map (progress_update t) (progress_spec t (Finite 0) (cumulative env 0 (parts b) files 0)) @
     (if \<forall>i<length (parts b). snd (esp_flashData env i (files ! i) (offset (parts b ! i))) = None
      then [WritingState MsgWriteDone t (sum_list (map length files)) (Finite 100)] else [])"
proof (cases "\<forall>i<length (parts b). snd (esp_flashData env i (files ! i) (offset (parts b ! i))) = None")
  case True
  from write_parts_succeeds [OF assms(2), of env 0 "fireStateEvent man bld chip" t 0 "Finite 0"] True
  obtain evs where wp:
    "write_parts env (fireStateEvent man bld chip) t 0 (parts b) files 0 (Finite 0) =
       (evs, Continue (sum_list (map length files)))"
    by auto
  then have l: "\<forall>e\<in>set evs. loop_event man bld chip e"
    using write_parts_Continue by blast
  from write_parts_spec [OF assms(1), of env man bld chip 0 "parts b" files 0 "Finite 0"] wp
    loop_events_states(2) [OF l]
  have sp: "map stateUpdate (emitted evs) =
      map (progress_update t) (progress_spec t (Finite 0) (cumulative env 0 (parts b) files 0))"
    by simp
  have "states (writing env (fireStateEvent man bld chip) b files t) =
      WritingState (MsgWriteStart (Finite 0)) t 0 (Finite 0) # map stateUpdate (emitted evs) @
      WritingState MsgWriteDone t (sum_list (map length files)) (Finite 100) #
      states (finishing env (fireStateEvent man bld chip))"
    using wp by (simp add: writing_def states_def)
  then have "filter writing_state (states (writing env (fireStateEvent man bld chip) b files t)) =
      WritingState (MsgWriteStart (Finite 0)) t 0 (Finite 0) # map stateUpdate (emitted evs) @
      [WritingState MsgWriteDone t (sum_list (map length files)) (Finite 100)]"
    using loop_events_states(1) [OF l] by (simp add: finishing_no_writing)
  with sp True show ?thesis by simp
next
  case False
  then obtain i err where i: "i < length (parts b)"
    and f: "snd (esp_flashData env i (files ! i) (offset (parts b ! i))) = Some err"
    by auto
  from write_parts_fails [OF assms(2) i, of env 0 err man bld chip t 0 "Finite 0"] f
  obtain evs' err' out where
    wp: "write_parts env (fireStateEvent man bld chip) t 0 (parts b) files 0 (Finite 0) =
       (evs' @ [fireStateEvent man bld chip
                  (ErrorState (MsgError err') WRITE_FAILED (DetailsError err')),
                Device Disconnect], Stop out)"
    and l: "\<forall>e\<in>set evs'. loop_event man bld chip e"
    by auto
  from write_parts_spec [OF assms(1), of env man bld chip 0 "parts b" files 0 "Finite 0"] wp
    loop_events_states(2) [OF l]
  have sp: "map stateUpdate (emitted evs') =
      map (progress_update t) (progress_spec t (Finite 0) (cumulative env 0 (parts b) files 0))"
    by simp
  have "states (writing env (fireStateEvent man bld chip) b files t) =
      WritingState (MsgWriteStart (Finite 0)) t 0 (Finite 0) # map stateUpdate (emitted evs') @
      [ErrorState (MsgError err') WRITE_FAILED (DetailsError err')]"
    using wp by (simp add: writing_def states_def)
  then have "filter writing_state (states (writing env (fireStateEvent man bld chip) b files t)) =
      WritingState (MsgWriteStart (Finite 0)) t 0 (Finite 0) # map stateUpdate (emitted evs')"
    using loop_events_states(1) [OF l] by simp
  with sp False show ?thesis by simp
qed

text \<open>
  C4, as the code has it. The claim is that, when the values fed to the callback do not
  decrease, the emitted percentage sequence has no two consecutive equal values. The
  sequence ends with the percentage 100 of the state of lines 217 to 225, which is
  fired without a look at the last emitted percentage. In the test environment with a
  device that reports 500 and then 1000 of 1000 bytes, every progress state carries
  \<open>\<lfloor>bytesWritten / bytesTotal * 100\<rfloor>\<close>, and the writing states of the run carry the
  percentages 0, 50, 100, 100.
\<close>

theorem writing_percentages_repeat:
  "cumulative half_env 0 [\<lparr>path = ''a.bin'', offset = 0\<rparr>] [replicate 1000 0] 0 = [500, 1000] \<and>
   \<lfloor>(500::real) / 1000 * 100\<rfloor> = (50::int) \<and> \<lfloor>(1000::real) / 1000 * 100\<rfloor> = (100::int) \<and>
   filter writing_state (states (flash half_env ''manifest.json'' False)) =
     [WritingState (MsgWriteStart (Finite 0)) 1000 0 (Finite 0),
      WritingState (MsgWriteProgress (Finite 50)) 1000 500 (Finite 50),
      WritingState (MsgWriteProgress (Finite 100)) 1000 1000 (Finite 100),
      WritingState MsgWriteDone 1000 1000 (Finite 100)]"
  by (simp add: half_env_def test_env_def test_manifest_def flash_eval test_percentages half_percentages)

text \<open>
  C4, amended. In a run that reaches the write loop with a positive total, the writing
  states are, in order: the state with percentage 0 of lines 165 to 175; the progress
  states of the callback; and, if and only if every call of \<^verbatim>\<open>flashData\<close> succeeds, the
  state with percentage 100 of lines 217 to 225. The progress states are those of the
  specification's tracker, fed with the cumulative bytes written that the callback
  receives and started at the last emitted percentage 0: each carries the total, the
  bytes written, and the percentage the callback computed for them, and a value is
  dropped exactly when its percentage equals the last emitted percentage. When the
  values fed do not decrease, the percentages of the progress states are integers that
  increase strictly, from above the 0 of the first writing state: up to the last
  progress state the sequence does not decrease and has no two equal neighbours. The
  state of lines 217 to 225 is outside this guarantee: it repeats the percentage 100
  when the last progress state carries 100.
\<close>

theorem progress_percentages:
  assumes "resolveURL env manifestPath (location env) = Inr manifestURL"
    and "connect env = None"
    and "esp_initialize env = None"
    and "fetchManifest env manifestURL = Inr man"
    and "select_build man (getChipFamilyName env) = Some b"
    and "esp_runStub env = None"
    and "await_files (map (download env manifestURL) (parts b)) [] 0 = Inr (files, totalSize)"
    and "eraseFirst \<longrightarrow> esp_eraseFlash env = None"
    and "0 < totalSize"
  shows "filter writing_state (states (flash env manifestPath eraseFirst)) =
      WritingState (MsgWriteStart (Finite 0)) totalSize 0 (Finite 0) #
      map (progress_update totalSize)
        (progress_spec totalSize (Finite 0) (cumulative env 0 (parts b) files 0)) @
      (if \<forall>i<length (parts b). snd (esp_flashData env i (files ! i) (offset (parts b ! i))) = None
       then [WritingState MsgWriteDone totalSize totalSize (Finite 100)] else []) \<and>
    filter progress_state (states (flash env manifestPath eraseFirst)) =
      map (progress_update totalSize)
        (progress_spec totalSize (Finite 0) (cumulative env 0 (parts b) files 0)) \<and>
    (sorted (cumulative env 0 (parts b) files 0) \<longrightarrow>
      (\<exists>ks. map (\<lambda>bytesWritten. percentage_of bytesWritten totalSize)
              (progress_spec totalSize (Finite 0) (cumulative env 0 (parts b) files 0)) =
            map Finite ks \<and>
            sorted_wrt (<) (0 # ks)))"
proof (intro conjI)
  let ?F = "fireStateEvent (Some man) (Some b) (Some (getChipFamilyName env))"
  have len: "length files = length (parts b)"
    using await_files_length [OF assms(7)] by simp
  have total: "sum_list (map length files) = totalSize"
    using await_files_total [of "map (download env manifestURL) (parts b)" "[]" files totalSize]
      assms(7) by simp
  have "filter writing_state (states (flash env manifestPath eraseFirst)) =
      filter writing_state (states (writing env ?F b files totalSize))"
    unfolding successful_run_states [OF assms(1-8)] by simp
  then show "filter writing_state (states (flash env manifestPath eraseFirst)) =
      WritingState (MsgWriteStart (Finite 0)) totalSize 0 (Finite 0) #
      map (progress_update totalSize)
        (progress_spec totalSize (Finite 0) (cumulative env 0 (parts b) files 0)) @
      (if \<forall>i<length (parts b). snd (esp_flashData env i (files ! i) (offset (parts b ! i))) = None
       then [WritingState MsgWriteDone totalSize totalSize (Finite 100)] else [])"
    using writing_states_of_writing [OF assms(9) len, of env "Some man" "Some b" "Some (getChipFamilyName env)"]
      total by simp
  have "filter progress_state (states (flash env manifestPath eraseFirst)) =
      filter progress_state (states (writing env ?F b files totalSize))"
    unfolding successful_run_states [OF assms(1-8)] by simp
  then show "filter progress_state (states (flash env manifestPath eraseFirst)) =
      map (progress_update totalSize)
        (progress_spec totalSize (Finite 0) (cumulative env 0 (parts b) files 0))"
    using writing_progress [OF assms(9)] by simp
  show "sorted (cumulative env 0 (parts b) files 0) \<longrightarrow>
      (\<exists>ks. map (\<lambda>bytesWritten. percentage_of bytesWritten totalSize)
              (progress_spec totalSize (Finite 0) (cumulative env 0 (parts b) files 0)) =
            map Finite ks \<and>
            sorted_wrt (<) (0 # ks))"
  proof
    assume "sorted (cumulative env 0 (parts b) files 0)"
    then have "sorted (0 # cumulative env 0 (parts b) files 0)" by simp
    then show "\<exists>ks. map (\<lambda>bytesWritten. percentage_of bytesWritten totalSize)
              (progress_spec totalSize (Finite 0) (cumulative env 0 (parts b) files 0)) =
            map Finite ks \<and>
            sorted_wrt (<) (0 # ks)"
      using percentage_of_zero [OF assms(9)] by (rule progress_spec_increasing [OF assms(9)])
  qed
qed

theorem progress_percentages_witness:
  "resolveURL half_env ''manifest.json'' (location half_env) = Inr ''http://host/manifest.json'' \<and>
   await_files (map (download half_env ''http://host/manifest.json'')
     [\<lparr>path = ''a.bin'', offset = 0\<rparr>]) [] 0 = Inr ([replicate 1000 0], 1000) \<and>
   (0::nat) < 1000 \<and>
   cumulative half_env 0 [\<lparr>path = ''a.bin'', offset = 0\<rparr>] [replicate 1000 0] 0 = [500, 1000] \<and>
   sorted [500, 1000 :: nat] \<and>
   filter writing_state (states (flash half_env ''manifest.json'' True)) =
     [WritingState (MsgWriteStart (Finite 0)) 1000 0 (Finite 0),
      WritingState (MsgWriteProgress (Finite 50)) 1000 500 (Finite 50),
      WritingState (MsgWriteProgress (Finite 100)) 1000 1000 (Finite 100),
      WritingState MsgWriteDone 1000 1000 (Finite 100)] \<and>
   filter progress_state (states (flash half_env ''manifest.json'' True)) =
     [WritingState (MsgWriteProgress (Finite 50)) 1000 500 (Finite 50),
      WritingState (MsgWriteProgress (Finite 100)) 1000 1000 (Finite 100)] \<and>
   (\<exists>ks. map (\<lambda>bytesWritten. percentage_of bytesWritten 1000)
           (progress_spec 1000 (Finite 0) [500, 1000]) = map Finite ks \<and>
         sorted_wrt (<) (0 # ks))"
  using progress_percentages
    [of half_env "''manifest.json''" "''http://host/manifest.json''" test_manifest
        "\<lparr>chipFamily = ''ESP32'', improv = False, parts = [\<lparr>path = ''a.bin'', offset = 0\<rparr>]\<rparr>"
        "[replicate 1000 0]" 1000 True]
  by (simp add: half_env_def test_env_def test_manifest_def select_build_def download_def
        test_percentages half_percentages progress_update_def)

end
